theory Spec2Isabelle
  imports Main "HOL-Library.Word" "HOL-Library.Monad_Syntax"
begin

unbundle bit_operations_syntax

section \<open>FB2SCI: two FB-01 sysex bank files into one SCI0 patch resource\<close>

text \<open>
  The development follows \<^verbatim>\<open>src/FB2SCI.cpp\<close> function by function:
  \<^verbatim>\<open>reorganize_data\<close> (the in-place nibble merge), \<^verbatim>\<open>read_files\<close> (the
  48 windows of 128 bytes), \<^verbatim>\<open>write_to_file\<close>, \<^verbatim>\<open>check_output_file\<close> and
  \<^verbatim>\<open>main\<close>.

  A \<^verbatim>\<open>char\<close> is an 8-bit word. A \<^verbatim>\<open>vector<char>\<close> is a list of bytes; its
  \<^verbatim>\<open>size()\<close> is the list's length. An \<^verbatim>\<open>int\<close> has 32 bits.
\<close>

type_synonym byte = "8 word"

subsection \<open>The nibble merge of \<^verbatim>\<open>reorganize_data\<close>\<close>

text \<open>
  Lines 184-185:
  \<^verbatim>\<open>unsigned char merged_byte1 = ((low_byte1 & 0x0F) << 4) | (high_byte1 & 0x0F);\<close>
  The operands are of type \<^verbatim>\<open>char\<close>; C++ promotes them to \<^verbatim>\<open>int\<close> before
  \<^verbatim>\<open>&\<close>, and the result is converted to \<^verbatim>\<open>unsigned char\<close>. The promotion is
  \<open>sint\<close> (a signed \<^verbatim>\<open>char\<close>); the conversion back is \<open>word_of_int\<close>.
\<close>

definition merge_nibbles :: "byte \<Rightarrow> byte \<Rightarrow> byte" where
  "merge_nibbles high_byte low_byte =
     word_of_int (push_bit 4 (sint low_byte AND 0x0F) OR (sint high_byte AND 0x0F))"

text \<open>
  \<^verbatim>\<open>data[i]\<close> on a \<^verbatim>\<open>vector<char>\<close> has undefined behaviour when \<^verbatim>\<open>i\<close> is not
  below \<^verbatim>\<open>size()\<close>. Every access of the model is checked: \<open>None\<close> stands for an
  access out of range.
\<close>

definition vec_at :: "byte list \<Rightarrow> nat \<Rightarrow> byte option" where
  "vec_at v i = (if i < length v then Some (v ! i) else None)"

definition vec_put :: "byte list \<Rightarrow> nat \<Rightarrow> byte \<Rightarrow> byte list option" where
  "vec_put v i x = (if i < length v then Some (v[i := x]) else None)"

text \<open>The body of the loop of lines 175-192, for one value of \<^verbatim>\<open>i\<close>.\<close>

definition reorg_body :: "nat \<Rightarrow> byte list \<times> byte list \<Rightarrow> (byte list \<times> byte list) option" where
  "reorg_body i d = (case d of (data1, data2) \<Rightarrow> do {
     high_byte1 \<leftarrow> vec_at data1 i;
     low_byte1 \<leftarrow> vec_at data1 (i + 1);
     high_byte2 \<leftarrow> vec_at data2 i;
     low_byte2 \<leftarrow> vec_at data2 (i + 1);
     let merged_byte1 = merge_nibbles high_byte1 low_byte1;
     let merged_byte2 = merge_nibbles high_byte2 low_byte2;
     data1 \<leftarrow> vec_put data1 (i div 2) merged_byte1;
     data1 \<leftarrow> vec_put data1 (i div 2 + 1) 0x00;
     data2 \<leftarrow> vec_put data2 (i div 2) merged_byte2;
     data2 \<leftarrow> vec_put data2 (i div 2 + 1) 0x00;
     Some (data1, data2)
   })"

text \<open>
  \<^verbatim>\<open>static_cast<int>(data1.size())\<close>: the size is reduced modulo \<open>2 ^ 32\<close> and read
  as a two's complement number. Below \<open>2 ^ 31\<close> it is the size itself; from \<open>2 ^ 31\<close>
  on it is negative or smaller than the size.
\<close>

definition INT_MAX :: int where
  "INT_MAX = 2147483647"

definition static_cast_int :: "nat \<Rightarrow> int" where
  "static_cast_int n = (let m = int n mod 2 ^ 32 in if m < 2 ^ 31 then m else m - 2 ^ 32)"

text \<open>
  \<^verbatim>\<open>for (int i = 0; i < static_cast<int>(data1.size()); i += 2) { ... }\<close>
  The counter is an \<^verbatim>\<open>int\<close> that starts at 0 and never is negative; as an index it
  is \<open>nat i\<close>. An \<^verbatim>\<open>i += 2\<close> beyond \<open>INT_MAX\<close> is undefined, and \<open>None\<close> as well.
\<close>

function reorg_loop :: "int \<Rightarrow> byte list \<times> byte list \<Rightarrow> (byte list \<times> byte list) option" where
  "reorg_loop i d =
     (if i < static_cast_int (length (fst d)) then
        (case reorg_body (nat i) d of
           None \<Rightarrow> None
         | Some d' \<Rightarrow> if INT_MAX < i + 2 then None else reorg_loop (i + 2) d')
      else Some d)"
  by pat_completeness auto
termination
proof (relation "measure (\<lambda>(i, d). nat (static_cast_int (length (fst d)) - i))")
  show "wf (measure (\<lambda>(i, d). nat (static_cast_int (length (fst d)) - i)))" by simp
next
  fix i :: int and d d' :: "byte list \<times> byte list"
  assume "i < static_cast_int (length (fst d))" and "reorg_body (nat i) d = Some d'"
  moreover from this have "length (fst d') = length (fst d)"
    by (auto simp: reorg_body_def vec_at_def vec_put_def Let_def
        split: prod.splits if_splits Option.bind_splits)
  ultimately show "((i + 2, d'), (i, d)) \<in>
      measure (\<lambda>(i, d). nat (static_cast_int (length (fst d)) - i))"
    by simp
qed

declare reorg_loop.simps [simp del]

text \<open>
  \<^verbatim>\<open>v.resize(n)\<close>: the first \<^verbatim>\<open>n\<close> elements are kept; a longer vector is filled
  with zero bytes.
\<close>

definition vector_resize :: "byte list \<Rightarrow> nat \<Rightarrow> byte list" where
  "vector_resize v n = take n v @ replicate (n - length v) 0"

subsection \<open>What the program prints\<close>

text \<open>
  The program reports through \<^verbatim>\<open>cout\<close>. Each message of the source is a constructor,
  named after the error of the specification's taxonomy that it stands for:
  \<^item> \<open>MissingFile\<close>: "Error: file ... not found";
  \<^item> \<open>InvalidSignature\<close>: "... is not a valid FB-01 sysex bank file (missing expected
    sysex header).";
  \<^item> \<open>InvalidLength\<close>: "... is not the expected size (6363 bytes). ... Actual size: "
    and the value of \<^verbatim>\<open>length\<close>;
  \<^item> \<open>LengthMismatch\<close>: "Error: data vectors have different sizes" and the two sizes;
  \<^item> \<open>UnexpectedLength\<close>: "Error: data vectors not the expected size (6144)" and the
    two sizes;
  \<^item> \<open>UserAborted\<close>: "Aborting operation...".
\<close>

datatype bank = BankA | BankB

datatype message =
    Banner
  | Usage
  | MissingFile bank
  | InvalidSignature bank
  | InvalidLength bank int
  | OverwritePrompt
  | Wiped
  | UserAborted
  | LengthMismatch nat nat
  | UnexpectedLength nat nat
  | Success

subsection \<open>\<^verbatim>\<open>reorganize_data\<close>, lines 153-197\<close>

text \<open>
  The function returns nothing; its effects are the messages it prints and the two
  vectors it changes in place. On a size mismatch it prints and returns, the vectors
  untouched. The second check prints and goes on. \<open>None\<close> is undefined behaviour
  in the loop.
\<close>

definition reorganize_data ::
  "byte list \<Rightarrow> byte list \<Rightarrow> message list \<times> (byte list \<times> byte list) option" where
  "reorganize_data data1 data2 =
     (if length data1 \<noteq> length data2 then
        ([LengthMismatch (length data1) (length data2)], Some (data1, data2))
      else
        (if length data1 \<noteq> 6144 then [UnexpectedLength (length data1) (length data2)] else [],
         case reorg_loop 0 (data1, data2) of
           None \<Rightarrow> None
         | Some (data1, data2) \<Rightarrow>
             Some (vector_resize data1 (length data1 div 2),
                   vector_resize data2 (length data2 div 2))))"

subsection \<open>Input streams\<close>

text \<open>
  An \<^verbatim>\<open>ifstream\<close> over a file is the file's bytes, the read position and the two
  state bits the program can set. A file is given by its contents; \<open>None\<close> is a path
  with no file. The three paths of the command line are taken to name three different
  files, so a stream sees the same bytes during the whole run.

  \<^item> \<^verbatim>\<open>read(buf, n)\<close> does nothing but set \<^verbatim>\<open>failbit\<close> when the stream is not
    good; otherwise it stores the bytes it gets at the front of \<^verbatim>\<open>buf\<close>, and sets
    \<^verbatim>\<open>eofbit\<close> and \<^verbatim>\<open>failbit\<close> when the file ends before \<^verbatim>\<open>n\<close> bytes. The rest
    of \<^verbatim>\<open>buf\<close> keeps what it held.
  \<^item> \<^verbatim>\<open>seekg\<close> clears \<^verbatim>\<open>eofbit\<close>, and moves only when \<^verbatim>\<open>failbit\<close> is clear.
  \<^item> \<^verbatim>\<open>tellg\<close> is -1 on a stream that is not good.
\<close>

record ifstream =
  content :: "byte list"
  gpos :: nat
  eofbit :: bool
  failbit :: bool

definition ifstream_open :: "byte list option \<Rightarrow> ifstream" where
  "ifstream_open f =
     (case f of
        None \<Rightarrow> \<lparr>content = [], gpos = 0, eofbit = False, failbit = True\<rparr>
      | Some bytes \<Rightarrow> \<lparr>content = bytes, gpos = 0, eofbit = False, failbit = False\<rparr>)"

definition good :: "ifstream \<Rightarrow> bool" where
  "good s = (\<not> eofbit s \<and> \<not> failbit s)"

definition istream_read :: "nat \<Rightarrow> byte list \<Rightarrow> ifstream \<Rightarrow> byte list \<times> ifstream" where
  "istream_read n buf s =
     (if \<not> good s then (buf, s\<lparr>failbit := True\<rparr>)
      else
        let got = take n (drop (gpos s) (content s)) in
        if length got < n then
          (got @ drop (length got) buf,
           s\<lparr>gpos := gpos s + length got, eofbit := True, failbit := True\<rparr>)
        else (got @ drop (length got) buf, s\<lparr>gpos := gpos s + n\<rparr>))"

definition seekg :: "nat \<Rightarrow> ifstream \<Rightarrow> ifstream" where
  "seekg p s = (let s = s\<lparr>eofbit := False\<rparr> in if failbit s then s else s\<lparr>gpos := p\<rparr>)"

definition seekg_end :: "ifstream \<Rightarrow> ifstream" where
  "seekg_end s =
     (let s = s\<lparr>eofbit := False\<rparr> in if failbit s then s else s\<lparr>gpos := length (content s)\<rparr>)"

definition tellg :: "ifstream \<Rightarrow> int \<times> ifstream" where
  "tellg s = (if \<not> good s then (- 1, s\<lparr>failbit := True\<rparr>) else (int (gpos s), s))"

text \<open>
  A local \<^verbatim>\<open>char\<close> array that the source does not initialise holds bytes that the
  program does not choose: the array of \<^verbatim>\<open>n\<close> bytes with the contents \<open>u\<close>.
\<close>

definition char_array :: "nat \<Rightarrow> (nat \<Rightarrow> byte) \<Rightarrow> byte list" where
  "char_array n u = map u [0..<n]"

subsection \<open>\<^verbatim>\<open>read_files\<close>, lines 128-151\<close>

record rf_state =
  rf_file1 :: ifstream
  rf_file2 :: ifstream
  rf_data1 :: "byte list"
  rf_data2 :: "byte list"
  rf_pos1 :: nat
  rf_pos2 :: nat

text \<open>
  The body of the loop. \<^verbatim>\<open>buffer1\<close> and \<^verbatim>\<open>buffer2\<close> are declared in the body and
  not initialised; \<open>u1\<close> and \<open>u2\<close> are what they hold in this iteration before the read.
\<close>

definition read_body :: "(nat \<Rightarrow> byte) \<Rightarrow> (nat \<Rightarrow> byte) \<Rightarrow> rf_state \<Rightarrow> rf_state" where
  "read_body u1 u2 st =
     (let file1 = seekg (rf_pos1 st) (rf_file1 st);
          file2 = seekg (rf_pos2 st) (rf_file2 st);
          (buffer1, file1) = istream_read 128 (char_array 128 u1) file1;
          (buffer2, file2) = istream_read 128 (char_array 128 u2) file2
      in \<lparr>rf_file1 = file1, rf_file2 = file2,
          rf_data1 = rf_data1 st @ buffer1, rf_data2 = rf_data2 st @ buffer2,
          rf_pos1 = rf_pos1 st + 131, rf_pos2 = rf_pos2 st + 131\<rparr>)"

text \<open>\<^verbatim>\<open>for (int i = 0; i < 48; i++) { ... }\<close>\<close>

function read_loop ::
  "(nat \<Rightarrow> nat \<Rightarrow> byte) \<Rightarrow> (nat \<Rightarrow> nat \<Rightarrow> byte) \<Rightarrow> nat \<Rightarrow> rf_state \<Rightarrow> rf_state" where
  "read_loop u1 u2 i st =
     (if i < 48 then read_loop u1 u2 (i + 1) (read_body (u1 i) (u2 i) st) else st)"
  by pat_completeness auto
termination
  by (relation "measure (\<lambda>(u1, u2, i, st). 48 - i)") auto

declare read_loop.simps [simp del]

definition read_files ::
  "(nat \<Rightarrow> nat \<Rightarrow> byte) \<Rightarrow> (nat \<Rightarrow> nat \<Rightarrow> byte) \<Rightarrow>
   ifstream \<Rightarrow> ifstream \<Rightarrow> byte list \<Rightarrow> byte list \<Rightarrow>
   ifstream \<times> ifstream \<times> byte list \<times> byte list" where
  "read_files u1 u2 file1 file2 data1 data2 =
     (let st = read_loop u1 u2 0
                 \<lparr>rf_file1 = file1, rf_file2 = file2, rf_data1 = data1, rf_data2 = data2,
                  rf_pos1 = 0x4C, rf_pos2 = 0x4C\<rparr>
      in (rf_file1 st, rf_file2 st, rf_data1 st, rf_data2 st))"

subsection \<open>\<^verbatim>\<open>write_to_file\<close>, lines 199-222\<close>

text \<open>
  The output stream opens the file empty; each \<^verbatim>\<open>write\<close> appends. The result is the
  file's contents after \<^verbatim>\<open>close\<close>. Writes are taken to succeed: the source never
  looks at the stream's state.
\<close>

definition ofstream_write :: "byte list \<Rightarrow> byte list \<Rightarrow> byte list" where
  "ofstream_write out_file buf = out_file @ buf"

definition write_to_file :: "byte list \<Rightarrow> byte list \<Rightarrow> byte list" where
  "write_to_file data1 data2 =
     (let out_file = [];
          sciPatchHeader = [0x89, 0x00];
          out_file = ofstream_write out_file sciPatchHeader;
          out_file = ofstream_write out_file data1;
          bankSeparator = [0xAB, 0xCD];
          out_file = ofstream_write out_file bankSeparator;
          out_file = ofstream_write out_file data2
      in out_file)"

subsection \<open>\<^verbatim>\<open>check_file_exists\<close> and \<^verbatim>\<open>check_output_file\<close>, lines 224-245\<close>

definition check_file_exists :: "byte list option \<Rightarrow> bool" where
  "check_file_exists f = (f \<noteq> None)"

text \<open>
  \<open>answer\<close> is the word that \<^verbatim>\<open>cin >> answer\<close> reads. The result is the messages
  printed and, unless the program exits here, the output file as the function leaves it.
\<close>

definition check_output_file ::
  "byte list option \<Rightarrow> string \<Rightarrow> message list \<times> byte list option option" where
  "check_output_file output_file answer =
     (if check_file_exists output_file then
        (if answer = ''Y'' \<or> answer = ''y'' then ([OverwritePrompt, Wiped], Some (Some []))
         else ([OverwritePrompt, UserAborted], None))
      else ([], Some output_file))"

subsection \<open>\<^verbatim>\<open>main\<close>, lines 29-126\<close>

text \<open>
  What a run is given: the number of arguments, the three files, the user's answer
  to the overwrite prompt, and the bytes held by the arrays that the source leaves
  uninitialised (\<^verbatim>\<open>header\<close> in \<^verbatim>\<open>main\<close>, \<^verbatim>\<open>buffer1\<close> and \<^verbatim>\<open>buffer2\<close> in each
  iteration of \<^verbatim>\<open>read_files\<close>).
\<close>

record world =
  argc :: int
  bankfile1 :: "byte list option"
  bankfile2 :: "byte list option"
  patfile :: "byte list option"
  answer :: string
  header_init :: "nat \<Rightarrow> byte"
  buffer1_init :: "nat \<Rightarrow> nat \<Rightarrow> byte"
  buffer2_init :: "nat \<Rightarrow> nat \<Rightarrow> byte"

text \<open>What a run leaves: the exit status, the output file and the messages printed.\<close>

record outcome =
  status :: int
  disk :: "byte list option"
  log :: "message list"

definition EXIT_FAILURE :: int where
  "EXIT_FAILURE = 1"

definition signature_A :: "byte list" where
  "signature_A = [0xF0, 0x43, 0x75, 0x00, 0x00, 0x00, 0x00]"

definition signature_B :: "byte list" where
  "signature_B = [0xF0, 0x43, 0x75, 0x00, 0x00, 0x00, 0x01]"

text \<open>
  Lines 118-125: the end of \<^verbatim>\<open>main\<close>, from the call of \<^verbatim>\<open>reorganize_data\<close> on, given
  the messages printed so far. \<open>None\<close> is undefined behaviour in \<^verbatim>\<open>reorganize_data\<close>.
\<close>

definition main_tail :: "message list \<Rightarrow> byte list \<Rightarrow> byte list \<Rightarrow> outcome option" where
  "main_tail printed data1 data2 =
     (case reorganize_data data1 data2 of
        (msgs, None) \<Rightarrow> None
      | (msgs, Some (data1, data2)) \<Rightarrow>
          Some \<lparr>status = 0, disk = Some (write_to_file data1 data2),
                log = printed @ msgs @ [Success]\<rparr>)"

text \<open>
  \<^verbatim>\<open>main\<close>. \<^verbatim>\<open>memcmp(header, sig, 7) != 0\<close> is the inequality of two lists of 7
  bytes. The array \<^verbatim>\<open>header\<close> is the same for both files: the second read stores
  over what the first left.
\<close>

definition main :: "world \<Rightarrow> outcome option" where
  "main w =
     (if argc w \<noteq> 4 then Some \<lparr>status = 1, disk = patfile w, log = [Banner, Usage]\<rparr>
      else
      let input_file1 = ifstream_open (bankfile1 w) in
      if \<not> check_file_exists (bankfile1 w) then
        Some \<lparr>status = EXIT_FAILURE, disk = patfile w, log = [Banner, MissingFile BankA]\<rparr>
      else
      let (header, input_file1) = istream_read 7 (char_array 7 (header_init w)) input_file1 in
      if header \<noteq> signature_A then
        Some \<lparr>status = EXIT_FAILURE, disk = patfile w, log = [Banner, InvalidSignature BankA]\<rparr>
      else
      let input_file1 = seekg_end input_file1;
          (length1, input_file1) = tellg input_file1;
          input_file1 = seekg 0 input_file1 in
      if length1 \<noteq> 6363 then
        Some \<lparr>status = EXIT_FAILURE, disk = patfile w,
              log = [Banner, InvalidLength BankA length1]\<rparr>
      else
      let input_file2 = ifstream_open (bankfile2 w) in
      if \<not> check_file_exists (bankfile2 w) then
        Some \<lparr>status = EXIT_FAILURE, disk = patfile w, log = [Banner, MissingFile BankB]\<rparr>
      else
      let (header, input_file2) = istream_read 7 header input_file2 in
      if header \<noteq> signature_B then
        Some \<lparr>status = EXIT_FAILURE, disk = patfile w, log = [Banner, InvalidSignature BankB]\<rparr>
      else
      let input_file2 = seekg_end input_file2;
          (length2, input_file2) = tellg input_file2;
          input_file2 = seekg 0 input_file2 in
      if length2 \<noteq> 6363 then
        Some \<lparr>status = EXIT_FAILURE, disk = patfile w,
              log = [Banner, InvalidLength BankB length2]\<rparr>
      else
      (case check_output_file (patfile w) (answer w) of
         (msgs, None) \<Rightarrow>
           Some \<lparr>status = EXIT_FAILURE, disk = patfile w, log = Banner # msgs\<rparr>
       | (msgs, Some output_file) \<Rightarrow>
           let (input_file1, input_file2, data1, data2) =
                 read_files (buffer1_init w) (buffer2_init w) input_file1 input_file2 [] []
           in main_tail (Banner # msgs) data1 data2))"

section \<open>The specification's functions and example inputs\<close>

subsection \<open>The transcoder as a pure function\<close>

text \<open>
  The pure function of the specification (4.3 and 9): each adjacent pair
  (high_byte, low_byte) of the source buffer gives one byte
  ((low_byte & 0x0F) << 4) | (high_byte & 0x0F) of a fresh buffer, one per pair, in
  the order of the pairs. It follows the specification's words, not the source.
\<close>

fun spec_merge_pairs :: "byte list \<Rightarrow> byte list" where
  "spec_merge_pairs (high_byte # low_byte # rest) =
     (push_bit 4 (low_byte AND 0x0F) OR (high_byte AND 0x0F)) # spec_merge_pairs rest"
| "spec_merge_pairs _ = []"

subsection \<open>The windows of the extractor\<close>

text \<open>
  Window \<open>k\<close> starts at offset 0x4C + 131 * k and is 128 bytes long; it fits a
  buffer when it ends within the buffer.
\<close>

definition window_fits :: "byte list \<Rightarrow> nat \<Rightarrow> bool" where
  "window_fits b k = (0x4C + 131 * k + 128 \<le> length b)"

text \<open>
  Block \<open>k\<close> of what \<^verbatim>\<open>read_files\<close> appends for a buffer \<open>b\<close>, where \<open>u\<close> is
  what the read buffer of iteration \<open>k\<close> held before the read (shown below to be what
  the loop computes): the window when it fits; at the first window that does not fit,
  the bytes that \<open>b\<close> still has from the window's start, then the rest of the read
  buffer; after that the read buffer alone, since the stream has failed.
\<close>

definition extracted_block :: "(nat \<Rightarrow> byte) \<Rightarrow> byte list \<Rightarrow> nat \<Rightarrow> byte list" where
  "extracted_block u b k =
     (if window_fits b k then take 128 (drop (0x4C + 131 * k) b)
      else if k = 0 \<or> window_fits b (k - 1) then
        drop (0x4C + 131 * k) b @ map u [length b - (0x4C + 131 * k)..<128]
      else char_array 128 u)"

text \<open>
  The extraction as the specification words it (4.2): the 48 windows of 128 bytes that
  start at offset 0x4C with stride 131, one after the other.
\<close>

definition spec_windows :: "byte list \<Rightarrow> byte list" where
  "spec_windows b = concat (map (\<lambda>k. take 128 (drop (0x4C + 131 * k) b)) [0..<48])"

text \<open>
  One iteration of the loop of \<^verbatim>\<open>read_files\<close> as seen by one of the two files: the
  stream, the vector and the position. The two files do not touch each other.
\<close>

definition read_one_step ::
  "(nat \<Rightarrow> byte) \<Rightarrow> ifstream \<times> byte list \<times> nat \<Rightarrow> ifstream \<times> byte list \<times> nat" where
  "read_one_step u s =
     (case s of (strm, data, pos) \<Rightarrow>
        let (buffer, strm) = istream_read 128 (char_array 128 u) (seekg pos strm)
        in (strm, data @ buffer, pos + 131))"

subsection \<open>Example inputs\<close>

text \<open>An example of uninitialised arrays: all bytes zero.\<close>

definition zero_init :: "nat \<Rightarrow> nat \<Rightarrow> byte" where
  "zero_init i j = 0"

text \<open>
  Example inputs: a bank file of 6363 bytes with a given signature, and a run with
  three arguments, given files and a given answer.
\<close>

definition example_bank :: "byte list \<Rightarrow> byte list" where
  "example_bank sig = sig @ replicate 6356 0x55"

definition example_world ::
  "byte list option \<Rightarrow> byte list option \<Rightarrow> byte list option \<Rightarrow> string \<Rightarrow> world" where
  "example_world f1 f2 out ans =
     \<lparr>argc = 4, bankfile1 = f1, bankfile2 = f2, patfile = out, answer = ans,
      header_init = zero_init 0, buffer1_init = zero_init, buffer2_init = zero_init\<rparr>"

section \<open>The transcoder\<close>

lemma merge_nibbles_word:
  "merge_nibbles h l = push_bit 4 (l AND 0x0F) OR (h AND 0x0F)"
  unfolding merge_nibbles_def
  by (rule bit_word_eqI) (auto simp: bit_simps)

text \<open>Where \<^verbatim>\<open>char\<close> is unsigned the promotion is \<open>uint\<close>; the byte is the same.\<close>

lemma merge_nibbles_unsigned:
  "word_of_int (push_bit 4 (uint l AND 0x0F) OR (uint h AND 0x0F)) = merge_nibbles h l"
  unfolding merge_nibbles_def
  by (rule bit_word_eqI) (auto simp: bit_simps)

lemma length_spec_merge_pairs: "length (spec_merge_pairs d) = length d div 2"
  by (induction d rule: spec_merge_pairs.induct) simp_all

lemma spec_merge_pairs_nth:
  "j < length d div 2 \<Longrightarrow> spec_merge_pairs d ! j = merge_nibbles (d ! (2 * j)) (d ! (2 * j + 1))"
proof (induction d arbitrary: j rule: spec_merge_pairs.induct)
  case (1 h l rest)
  then show ?case by (cases j) (simp_all add: merge_nibbles_word)
qed simp_all

lemma reorg_body_step:
  assumes "2 * k + 1 < length a" "length b = length a"
  shows "reorg_body (2 * k) (a, b) =
     Some (a[k := merge_nibbles (a ! (2 * k)) (a ! (2 * k + 1)), k + 1 := 0],
           b[k := merge_nibbles (b ! (2 * k)) (b ! (2 * k + 1)), k + 1 := 0])"
  using assms by (simp add: reorg_body_def vec_at_def vec_put_def)

lemma static_cast_int_small: "n < 2 ^ 31 \<Longrightarrow> static_cast_int n = int n"
  by (simp add: static_cast_int_def)

lemma static_cast_int_le: "static_cast_int n \<le> int n"
proof -
  have "int n mod 2 ^ 32 \<le> int n" by (rule zmod_le_nonneg_dividend) simp
  then show ?thesis by (simp add: static_cast_int_def Let_def)
qed

lemma static_cast_int_max: "static_cast_int n \<le> INT_MAX"
proof (cases "int n mod 4294967296 < 2147483648")
  case True
  then show ?thesis by (simp add: static_cast_int_def INT_MAX_def)
next
  case False
  then have eq: "static_cast_int n = int n mod 4294967296 - 4294967296"
    by (simp add: static_cast_int_def)
  have "int n mod 4294967296 < 4294967296" by simp
  then show ?thesis unfolding eq INT_MAX_def by linarith
qed

lemma even_static_cast_int: "even n \<Longrightarrow> even (static_cast_int n)"
proof -
  assume "even n"
  then have "even (int n mod 4294967296)"
    by presburger
  then show ?thesis by (simp add: static_cast_int_def Let_def)
qed

text \<open>
  The invariant of the loop, for \<open>M\<close> the bound of the loop as a natural number: the
  first \<open>k\<close> bytes are merged, the bytes from \<open>2 * k\<close> on are still the original ones.
\<close>

lemma reorg_loop_inv:
  assumes "length a0 = n" "length b0 = n"
    and "M = nat (static_cast_int n)" "even M" "M \<le> n" "int M \<le> INT_MAX"
  shows "length a = n \<Longrightarrow> length b = n \<Longrightarrow>
     (\<forall>j<k. a ! j = spec_merge_pairs a0 ! j) \<Longrightarrow> (\<forall>j. 2 * k \<le> j \<and> j < n \<longrightarrow> a ! j = a0 ! j) \<Longrightarrow>
     (\<forall>j<k. b ! j = spec_merge_pairs b0 ! j) \<Longrightarrow> (\<forall>j. 2 * k \<le> j \<and> j < n \<longrightarrow> b ! j = b0 ! j) \<Longrightarrow>
     \<exists>a' b'. reorg_loop (int (2 * k)) (a, b) = Some (a', b') \<and> length a' = n \<and> length b' = n \<and>
        (\<forall>j < M div 2. a' ! j = spec_merge_pairs a0 ! j) \<and>
        (\<forall>j < M div 2. b' ! j = spec_merge_pairs b0 ! j)"
proof (induction "M div 2 - k" arbitrary: a b k)
  case 0
  then have "M div 2 \<le> k" by simp
  with \<open>even M\<close> have "M \<le> 2 * k" by (auto elim!: evenE)
  then have "\<not> int (2 * k) < static_cast_int n"
    using assms(3) by linarith
  then have "reorg_loop (int (2 * k)) (a, b) = Some (a, b)"
    using 0 by (subst reorg_loop.simps) simp
  moreover have "\<forall>j < M div 2. a ! j = spec_merge_pairs a0 ! j"
    "\<forall>j < M div 2. b ! j = spec_merge_pairs b0 ! j"
    using 0 \<open>M div 2 \<le> k\<close> by auto
  ultimately show ?case using 0 by simp
next
  case (Suc m)
  then have k: "k < M div 2" by simp
  with \<open>even M\<close> have ltM: "2 * k + 2 \<le> M" by (auto elim!: evenE)
  then have lt: "2 * k + 1 < n" using \<open>M \<le> n\<close> by simp
  have kn: "k < n div 2" using lt by simp
  let ?a = "a[k := merge_nibbles (a ! (2 * k)) (a ! (2 * k + 1)), k + 1 := 0]"
  let ?b = "b[k := merge_nibbles (b ! (2 * k)) (b ! (2 * k + 1)), k + 1 := 0]"
  have cond: "int (2 * k) < static_cast_int n"
    using ltM assms(3) by linarith
  have noflow: "\<not> INT_MAX < int (2 * k) + 2"
    using ltM assms(6) by linarith
  have body: "reorg_body (nat (int (2 * k))) (a, b) = Some (?a, ?b)"
    unfolding nat_int using reorg_body_step [of k a b] lt Suc.prems by simp
  have unf: "reorg_loop (int (2 * k)) (a, b) = reorg_loop (int (2 * Suc k)) (?a, ?b)"
  proof -
    have step: "reorg_loop (int (2 * k)) (a, b) = reorg_loop (int (2 * k) + 2) (?a, ?b)"
      using body cond noflow Suc.prems(1) by (subst reorg_loop.simps) simp
    have e: "int (2 * k) + 2 = int (2 * Suc k)" by simp
    show ?thesis using step unfolding e .
  qed
  have ma: "merge_nibbles (a ! (2 * k)) (a ! (2 * k + 1)) = spec_merge_pairs a0 ! k"
    using Suc.prems lt kn assms by (simp add: spec_merge_pairs_nth)
  have mb: "merge_nibbles (b ! (2 * k)) (b ! (2 * k + 1)) = spec_merge_pairs b0 ! k"
    using Suc.prems lt kn assms by (simp add: spec_merge_pairs_nth)
  have "\<exists>a' b'. reorg_loop (int (2 * Suc k)) (?a, ?b) = Some (a', b') \<and>
        length a' = n \<and> length b' = n \<and>
        (\<forall>j < M div 2. a' ! j = spec_merge_pairs a0 ! j) \<and>
        (\<forall>j < M div 2. b' ! j = spec_merge_pairs b0 ! j)"
  proof (rule Suc.hyps(1) [of "Suc k"])
    show "m = M div 2 - Suc k" using Suc.hyps(2) by simp
    show "length ?a = n" "length ?b = n" using Suc.prems by simp_all
    show "\<forall>j<Suc k. ?a ! j = spec_merge_pairs a0 ! j"
      using Suc.prems lt ma by (auto simp: nth_list_update less_Suc_eq)
    show "\<forall>j<Suc k. ?b ! j = spec_merge_pairs b0 ! j"
      using Suc.prems lt mb by (auto simp: nth_list_update less_Suc_eq)
    show "\<forall>j. 2 * Suc k \<le> j \<and> j < n \<longrightarrow> ?a ! j = a0 ! j"
      using Suc.prems by (auto simp: nth_list_update)
    show "\<forall>j. 2 * Suc k \<le> j \<and> j < n \<longrightarrow> ?b ! j = b0 ! j"
      using Suc.prems by (auto simp: nth_list_update)
  qed
  with unf show ?case by simp
qed

text \<open>For every even size the loop runs to its end, whatever the cast makes of the size.\<close>

lemma reorg_loop_runs:
  assumes "even (length d1)" "length d2 = length d1"
  shows "\<exists>a' b'. reorg_loop 0 (d1, d2) = Some (a', b') \<and>
           length a' = length d1 \<and> length b' = length d1"
proof -
  let ?n = "length d1"
  let ?M = "nat (static_cast_int ?n)"
  have "even ?M"
    using even_static_cast_int [OF assms(1)] by (cases "0 \<le> static_cast_int ?n") (simp_all add: even_nat_iff)
  moreover have "?M \<le> ?n" using static_cast_int_le [of ?n] by linarith
  moreover have "int ?M \<le> INT_MAX"
    using static_cast_int_max [of ?n] by (simp add: INT_MAX_def)
  ultimately show ?thesis
    using reorg_loop_inv [of d1 ?n d2 ?M d1 d2 0] assms by auto
qed

text \<open>Below \<open>2 ^ 31\<close> bytes the bound is the size, and the loop merges every pair.\<close>

lemma reorg_loop_even:
  assumes "even (length d1)" "length d2 = length d1" "length d1 < 2 ^ 31"
  shows "\<exists>a' b'. reorg_loop 0 (d1, d2) = Some (a', b') \<and>
           length a' = length d1 \<and> length b' = length d1 \<and>
           take (length d1 div 2) a' = spec_merge_pairs d1 \<and>
           take (length d1 div 2) b' = spec_merge_pairs d2"
proof -
  let ?n = "length d1"
  have M: "?n = nat (static_cast_int ?n)"
    using assms(3) by (simp add: static_cast_int_small)
  have "int ?n \<le> INT_MAX" using assms(3) by (simp add: INT_MAX_def)
  then obtain a' b' where r: "reorg_loop 0 (d1, d2) = Some (a', b')"
      "length a' = length d1" "length b' = length d1"
      "\<forall>j < length d1 div 2. a' ! j = spec_merge_pairs d1 ! j"
      "\<forall>j < length d1 div 2. b' ! j = spec_merge_pairs d2 ! j"
    using reorg_loop_inv [of d1 ?n d2 ?n d1 d2 0, OF refl _ M] assms by auto
  have "take (length d1 div 2) a' = spec_merge_pairs d1"
    using r assms by (intro nth_equalityI) (simp_all add: length_spec_merge_pairs)
  moreover have "take (length d1 div 2) b' = spec_merge_pairs d2"
    using r assms by (intro nth_equalityI) (simp_all add: length_spec_merge_pairs)
  ultimately show ?thesis using r by simp
qed

lemma reorganize_data_even:
  assumes "even (length d1)" "length d2 = length d1" "length d1 < 2 ^ 31"
  shows "snd (reorganize_data d1 d2) = Some (spec_merge_pairs d1, spec_merge_pairs d2)"
proof -
  obtain a' b' where r: "reorg_loop 0 (d1, d2) = Some (a', b')"
      "length a' = length d1" "length b' = length d1"
      "take (length d1 div 2) a' = spec_merge_pairs d1"
      "take (length d1 div 2) b' = spec_merge_pairs d2"
    using reorg_loop_even [OF assms] by blast
  then show ?thesis
    using assms by (simp add: reorganize_data_def vector_resize_def)
qed

subsection \<open>The merged byte\<close>

text \<open>
  Claim C1. For two buffers of the same even length below \<open>2 ^ 31\<close> bytes (the range
  of the loop's \<^verbatim>\<open>int\<close> bound; the extracted buffers have 6144 bytes) and every even
  index \<open>i\<close> below it, \<^verbatim>\<open>reorganize_data\<close> leaves at position \<open>i div 2\<close> of each buffer the byte
  ((buffer[i+1] & 0x0F) << 4) | (buffer[i] & 0x0F): the low nibble of the second byte
  of the pair on top, the low nibble of the first below. The pair 0x3F, 0xA2 gives 0x2F.
\<close>

theorem transcode_output_byte:
  assumes "length data2 = length data1" and "even (length data1)"
    and "length data1 < 2 ^ 31"
    and "even i" and "i < length data1"
  shows "(\<exists>out1 out2. snd (reorganize_data data1 data2) = Some (out1, out2) \<and>
           out1 ! (i div 2) = push_bit 4 (data1 ! (i + 1) AND 0x0F) OR (data1 ! i AND 0x0F) \<and>
           out2 ! (i div 2) = push_bit 4 (data2 ! (i + 1) AND 0x0F) OR (data2 ! i AND 0x0F)) \<and>
         snd (reorganize_data [0x3F, 0xA2] [0x3F, 0xA2]) = Some ([0x2F], [0x2F]) \<and>
         merge_nibbles 0x3F 0xA2 = 0x2F"
proof -
  from \<open>even i\<close> obtain j where i: "i = 2 * j" by (auto elim: evenE)
  with assms have j: "j < length data1 div 2" "j < length data2 div 2" by auto
  have "snd (reorganize_data data1 data2) =
      Some (spec_merge_pairs data1, spec_merge_pairs data2)"
    using assms by (simp add: reorganize_data_even)
  moreover have "spec_merge_pairs data1 ! (i div 2) =
      push_bit 4 (data1 ! (i + 1) AND 0x0F) OR (data1 ! i AND 0x0F)"
    using spec_merge_pairs_nth [OF j(1)] i by (simp add: merge_nibbles_word)
  moreover have "spec_merge_pairs data2 ! (i div 2) =
      push_bit 4 (data2 ! (i + 1) AND 0x0F) OR (data2 ! i AND 0x0F)"
    using spec_merge_pairs_nth [OF j(2)] i by (simp add: merge_nibbles_word)
  ultimately have "\<exists>out1 out2. snd (reorganize_data data1 data2) = Some (out1, out2) \<and>
           out1 ! (i div 2) = push_bit 4 (data1 ! (i + 1) AND 0x0F) OR (data1 ! i AND 0x0F) \<and>
           out2 ! (i div 2) = push_bit 4 (data2 ! (i + 1) AND 0x0F) OR (data2 ! i AND 0x0F)"
    by simp
  moreover have "snd (reorganize_data [0x3F, 0xA2] [0x3F, 0xA2]) = Some ([0x2F], [0x2F])"
    by (simp add: reorganize_data_even)
  moreover have "merge_nibbles 0x3F 0xA2 = 0x2F"
    by (simp add: merge_nibbles_def)
  ultimately show ?thesis by blast
qed

theorem transcode_output_byte_witness:
  "length [0x00, 0x01 :: byte] = length [0x3F, 0xA2 :: byte] \<and>
   even (length [0x3F, 0xA2 :: byte]) \<and> length [0x3F, 0xA2 :: byte] < 2 ^ 31 \<and>
   even (0 :: nat) \<and> (0 :: nat) < length [0x3F, 0xA2 :: byte] \<and>
   (\<exists>out1 out2. snd (reorganize_data [0x3F, 0xA2] [0x00, 0x01]) = Some (out1, out2) \<and>
      out1 ! 0 = 0x2F \<and> out2 ! 0 = 0x10)"
  using transcode_output_byte [of "[0x00, 0x01]" "[0x3F, 0xA2]" 0] by simp

subsection \<open>The in-place pass against the pure function\<close>

text \<open>
  Claim C3. On two buffers of the same even length \<open>n\<close> below \<open>2 ^ 31\<close> bytes (the
  range of the loop's \<^verbatim>\<open>int\<close> bound), the in-place pass of
  \<^verbatim>\<open>reorganize_data\<close> (the merged byte to index \<open>i div 2\<close>, a zero byte to index
  \<open>i div 2 + 1\<close>, for each even \<open>i\<close>, then \<^verbatim>\<open>resize\<close> to \<open>n div 2\<close>) ends with
  exactly the buffers that the pure function \<open>spec_merge_pairs\<close> gives: one merged
  byte per pair, in the order of the pairs, and nothing of the zero bytes.
\<close>

theorem in_place_refines_pure:
  assumes "even (length data1)" and "length data2 = length data1"
    and "length data1 < 2 ^ 31"
  shows "snd (reorganize_data data1 data2) =
           Some (spec_merge_pairs data1, spec_merge_pairs data2) \<and>
         length (spec_merge_pairs data1) = length data1 div 2 \<and>
         length (spec_merge_pairs data2) = length data2 div 2 \<and>
         (\<forall>j < length data1 div 2.
            spec_merge_pairs data1 ! j =
              push_bit 4 (data1 ! (2 * j + 1) AND 0x0F) OR (data1 ! (2 * j) AND 0x0F) \<and>
            spec_merge_pairs data2 ! j =
              push_bit 4 (data2 ! (2 * j + 1) AND 0x0F) OR (data2 ! (2 * j) AND 0x0F))"
  using assms
  by (simp add: reorganize_data_even length_spec_merge_pairs spec_merge_pairs_nth
      merge_nibbles_word)

theorem in_place_refines_pure_witness:
  "even (length [0x3F, 0xA2, 0x00, 0x01 :: byte]) \<and>
   length [0x00, 0x01, 0x3F, 0xA2 :: byte] = length [0x3F, 0xA2, 0x00, 0x01 :: byte] \<and>
   length [0x3F, 0xA2, 0x00, 0x01 :: byte] < 2 ^ 31 \<and>
   snd (reorganize_data [0x3F, 0xA2, 0x00, 0x01] [0x00, 0x01, 0x3F, 0xA2]) =
     Some ([0x2F, 0x10], [0x10, 0x2F])"
  using in_place_refines_pure [of "[0x3F, 0xA2, 0x00, 0x01]" "[0x00, 0x01, 0x3F, 0xA2]"]
  by simp

subsection \<open>The unexpected size is only reported\<close>

text \<open>
  Claim C9 as stated fails. Two buffers of \<open>2 ^ 31\<close> bytes have the same length, and
  it is not 6144. The message is printed, but \<^verbatim>\<open>static_cast<int>(data1.size())\<close> is
  negative, the loop does not run, and \<^verbatim>\<open>resize\<close> keeps the first half of each
  buffer as it was: the pairs 0xA2, 0xA2 are not merged to 0x22.
\<close>

theorem unexpected_length_loop_skipped:
  "length (replicate 2147483648 (0xA2 :: byte)) \<noteq> 6144 \<and>
   reorganize_data (replicate 2147483648 0xA2) (replicate 2147483648 0xA2) =
     ([UnexpectedLength 2147483648 2147483648],
      Some (replicate 1073741824 0xA2, replicate 1073741824 0xA2)) \<and>
   spec_merge_pairs [0xA2, 0xA2] = [0x22]"
proof -
  let ?d = "replicate 2147483648 (0xA2 :: byte)"
  have "static_cast_int (length ?d) = - 2147483648"
    by (simp add: static_cast_int_def)
  then have "reorg_loop 0 (?d, ?d) = Some (?d, ?d)"
    by (subst reorg_loop.simps) simp
  then show ?thesis
    by (simp add: reorganize_data_def vector_resize_def)
qed

text \<open>
  Claim C9, amended. When the two buffers have the same length and it is not 6144,
  \<^verbatim>\<open>reorganize_data\<close> prints the unexpected-size message and goes on into the loop
  and the \<^verbatim>\<open>resize\<close> as it does for 6144 bytes: the message halts nothing. When
  the length is even and below \<open>2 ^ 31\<close> bytes, the result is the nibble merge at half
  the length, and the end of \<^verbatim>\<open>main\<close> writes the file and returns 0.
\<close>

theorem unexpected_length_non_fatal:
  assumes "length data2 = length data1" and "length data1 \<noteq> 6144"
  shows "fst (reorganize_data data1 data2) = [UnexpectedLength (length data1) (length data2)] \<and>
     snd (reorganize_data data1 data2) =
       (case reorg_loop 0 (data1, data2) of
          None \<Rightarrow> None
        | Some (a, b) \<Rightarrow> Some (vector_resize a (length a div 2), vector_resize b (length b div 2))) \<and>
     (even (length data1) \<and> length data1 < 2 ^ 31 \<longrightarrow>
        snd (reorganize_data data1 data2) =
          Some (spec_merge_pairs data1, spec_merge_pairs data2) \<and>
        main_tail printed data1 data2 =
          Some \<lparr>status = 0,
                disk = Some (write_to_file (spec_merge_pairs data1) (spec_merge_pairs data2)),
                log = printed @ [UnexpectedLength (length data1) (length data2), Success]\<rparr>)"
proof -
  have 1: "fst (reorganize_data data1 data2) = [UnexpectedLength (length data1) (length data2)]"
    using assms by (simp add: reorganize_data_def)
  have 2: "snd (reorganize_data data1 data2) =
       (case reorg_loop 0 (data1, data2) of
          None \<Rightarrow> None
        | Some (a, b) \<Rightarrow> Some (vector_resize a (length a div 2), vector_resize b (length b div 2)))"
    using assms by (simp add: reorganize_data_def)
  have 4: "snd (reorganize_data data1 data2) =
      Some (spec_merge_pairs data1, spec_merge_pairs data2)"
    if "even (length data1)" "length data1 < 2 ^ 31"
    using that(1) assms(1) that(2) by (rule reorganize_data_even)
  have 3: "main_tail printed data1 data2 =
          Some \<lparr>status = 0,
                disk = Some (write_to_file (spec_merge_pairs data1) (spec_merge_pairs data2)),
                log = printed @ [UnexpectedLength (length data1) (length data2), Success]\<rparr>"
    if "even (length data1)" "length data1 < 2 ^ 31"
  proof -
    have "reorganize_data data1 data2 =
        ([UnexpectedLength (length data1) (length data2)],
         Some (spec_merge_pairs data1, spec_merge_pairs data2))"
      using 1 4 [OF that] by (simp add: prod_eq_iff)
    then show ?thesis by (simp add: main_tail_def)
  qed
  show ?thesis using 1 2 3 4 by blast
qed

theorem unexpected_length_non_fatal_witness:
  "length [0x00, 0x01 :: byte] = length [0x3F, 0xA2 :: byte] \<and>
   length [0x3F, 0xA2 :: byte] \<noteq> 6144 \<and>
   even (length [0x3F, 0xA2 :: byte]) \<and> length [0x3F, 0xA2 :: byte] < 2 ^ 31 \<and>
   reorganize_data [0x3F, 0xA2] [0x00, 0x01] = ([UnexpectedLength 2 2], Some ([0x2F], [0x10])) \<and>
   main_tail [Banner] [0x3F, 0xA2] [0x00, 0x01] =
     Some \<lparr>status = 0, disk = Some [0x89, 0x00, 0x2F, 0xAB, 0xCD, 0x10],
           log = [Banner, UnexpectedLength 2 2, Success]\<rparr>"
proof -
  have h1: "length [0x00, 0x01 :: byte] = length [0x3F, 0xA2 :: byte]" by simp
  have h2: "length [0x3F, 0xA2 :: byte] \<noteq> 6144" by simp
  have h3: "even (length [0x3F, 0xA2 :: byte]) \<and> length [0x3F, 0xA2 :: byte] < 2 ^ 31" by simp
  note inst = unexpected_length_non_fatal [OF h1 h2, of "[Banner]"]
  have "fst (reorganize_data [0x3F, 0xA2] [0x00, 0x01]) =
      [UnexpectedLength (length [0x3F, 0xA2 :: byte]) (length [0x00, 0x01 :: byte])]"
    using inst by blast
  then have a: "fst (reorganize_data [0x3F, 0xA2] [0x00, 0x01]) = [UnexpectedLength 2 2]"
    by simp
  have "snd (reorganize_data [0x3F, 0xA2] [0x00, 0x01]) =
      Some (spec_merge_pairs [0x3F, 0xA2], spec_merge_pairs [0x00, 0x01])"
    using inst h3 by blast
  then have b: "snd (reorganize_data [0x3F, 0xA2] [0x00, 0x01]) = Some ([0x2F], [0x10])"
    by simp
  have "main_tail [Banner] [0x3F, 0xA2] [0x00, 0x01] =
     Some \<lparr>status = 0,
           disk = Some (write_to_file (spec_merge_pairs [0x3F, 0xA2])
                          (spec_merge_pairs [0x00, 0x01])),
           log = [Banner] @ [UnexpectedLength (length [0x3F, 0xA2 :: byte])
                   (length [0x00, 0x01 :: byte]), Success]\<rparr>"
    using inst h3 by blast
  then have c: "main_tail [Banner] [0x3F, 0xA2] [0x00, 0x01] =
     Some \<lparr>status = 0, disk = Some [0x89, 0x00, 0x2F, 0xAB, 0xCD, 0x10],
           log = [Banner, UnexpectedLength 2 2, Success]\<rparr>"
    by (simp add: write_to_file_def ofstream_write_def)
  show ?thesis
    using h1 h2 h3 a b c by (simp add: prod_eq_iff)
qed

subsection \<open>Every access of the in-place pass is in range\<close>

text \<open>
  Claim C10. On two buffers of the same even length \<open>n\<close> the loop of
  \<^verbatim>\<open>reorganize_data\<close> never indexes out of range: it runs to its end, and for each
  even \<open>i < n\<close> the indices read, \<open>i\<close> and \<open>i + 1\<close>, and the indices written,
  \<open>i div 2\<close> and \<open>i div 2 + 1\<close>, are below \<open>n\<close>, with \<open>i div 2 + 1 \<le> n div 2\<close>;
  the body of the loop succeeds on any two buffers of length \<open>n\<close>.
\<close>

theorem in_place_accesses_in_bounds:
  assumes "even (length data1)" and "length data2 = length data1"
  shows "reorg_loop 0 (data1, data2) \<noteq> None \<and>
     (\<forall>i < length data1. even i \<longrightarrow>
        i + 1 < length data1 \<and> i div 2 + 1 < length data1 \<and> i div 2 + 1 \<le> length data1 div 2 \<and>
        (\<forall>a b. length a = length data1 \<and> length b = length data1 \<longrightarrow>
           vec_at a i \<noteq> None \<and> vec_at a (i + 1) \<noteq> None \<and>
           vec_at b i \<noteq> None \<and> vec_at b (i + 1) \<noteq> None \<and>
           (\<forall>x. vec_put a (i div 2) x \<noteq> None \<and> vec_put a (i div 2 + 1) x \<noteq> None \<and>
                vec_put b (i div 2) x \<noteq> None \<and> vec_put b (i div 2 + 1) x \<noteq> None) \<and>
           reorg_body i (a, b) \<noteq> None))"
proof -
  have "reorg_loop 0 (data1, data2) \<noteq> None"
    using reorg_loop_runs [OF assms] by auto
  moreover have "i + 1 < length data1 \<and> i div 2 + 1 < length data1 \<and>
      i div 2 + 1 \<le> length data1 div 2"
    if "i < length data1" "even i" for i
    using that assms(1) by (auto elim!: evenE)
  moreover have "reorg_body i (a, b) \<noteq> None"
    if "i < length data1" "even i" "length a = length data1" "length b = length data1" for i a b
  proof -
    from that assms(1) obtain k where "i = 2 * k" "2 * k + 1 < length a" by (auto elim!: evenE)
    then show ?thesis using reorg_body_step [of k a b] that by simp
  qed
  ultimately show ?thesis by (auto simp: vec_at_def vec_put_def)
qed

theorem in_place_accesses_in_bounds_witness:
  "even (length [0x3F, 0xA2 :: byte]) \<and>
   length [0x00, 0x01 :: byte] = length [0x3F, 0xA2 :: byte] \<and>
   reorg_loop 0 ([0x3F, 0xA2], [0x00, 0x01]) \<noteq> None \<and>
   reorg_body 0 ([0x3F, 0xA2], [0x00, 0x01]) \<noteq> None"
  using in_place_accesses_in_bounds [of "[0x3F, 0xA2]" "[0x00, 0x01]"] by simp

section \<open>The extractor\<close>

lemma read_body_view1:
  "(rf_file1 (read_body u1 u2 st), rf_data1 (read_body u1 u2 st), rf_pos1 (read_body u1 u2 st)) =
     read_one_step u1 (rf_file1 st, rf_data1 st, rf_pos1 st)"
  by (simp add: read_body_def read_one_step_def Let_def split: prod.splits)

lemma read_body_view2:
  "(rf_file2 (read_body u1 u2 st), rf_data2 (read_body u1 u2 st), rf_pos2 (read_body u1 u2 st)) =
     read_one_step u2 (rf_file2 st, rf_data2 st, rf_pos2 st)"
  by (simp add: read_body_def read_one_step_def Let_def split: prod.splits)

lemma read_loop_view1:
  "(rf_file1 (read_loop u1 u2 i st), rf_data1 (read_loop u1 u2 i st), rf_pos1 (read_loop u1 u2 i st)) =
     fold (\<lambda>k. read_one_step (u1 k)) [i..<48] (rf_file1 st, rf_data1 st, rf_pos1 st)"
proof (induction u1 u2 i st rule: read_loop.induct)
  case (1 u1 u2 i st)
  show ?case
  proof (cases "i < 48")
    case True
    then show ?thesis
      using 1 by (subst (1 2 3) read_loop.simps) (simp add: upt_conv_Cons read_body_view1)
  next
    case False
    then show ?thesis by (subst (1 2 3) read_loop.simps) simp
  qed
qed

lemma read_loop_view2:
  "(rf_file2 (read_loop u1 u2 i st), rf_data2 (read_loop u1 u2 i st), rf_pos2 (read_loop u1 u2 i st)) =
     fold (\<lambda>k. read_one_step (u2 k)) [i..<48] (rf_file2 st, rf_data2 st, rf_pos2 st)"
proof (induction u1 u2 i st rule: read_loop.induct)
  case (1 u1 u2 i st)
  show ?case
  proof (cases "i < 48")
    case True
    then show ?thesis
      using 1 by (subst (1 2 3) read_loop.simps) (simp add: upt_conv_Cons read_body_view2)
  next
    case False
    then show ?thesis by (subst (1 2 3) read_loop.simps) simp
  qed
qed

lemma length_char_array [simp]: "length (char_array n u) = n"
  by (simp add: char_array_def)

lemma read_one_step_failed:
  assumes "failbit strm"
  shows "\<exists>strm'. failbit strm' \<and> content strm' = content strm \<and>
     read_one_step u (strm, data, pos) = (strm', data @ char_array 128 u, pos + 131)"
  using assms by (simp add: read_one_step_def seekg_def istream_read_def good_def Let_def)

lemma fold_failed:
  "failbit strm \<Longrightarrow> \<exists>strm'. failbit strm' \<and> content strm' = content strm \<and>
     fold (\<lambda>k. read_one_step (u k)) ks (strm, data, pos) =
       (strm', data @ concat (map (\<lambda>k. char_array 128 (u k)) ks), pos + 131 * length ks)"
proof (induction ks arbitrary: strm data pos)
  case Nil
  then show ?case by simp
next
  case (Cons k ks)
  from read_one_step_failed [OF Cons.prems, of "u k" data pos]
  obtain f1 where f1: "failbit f1" "content f1 = content strm"
    "read_one_step (u k) (strm, data, pos) = (f1, data @ char_array 128 (u k), pos + 131)"
    by blast
  from Cons.IH [OF f1(1), of "data @ char_array 128 (u k)" "pos + 131"]
  obtain f2 where f2: "failbit f2" "content f2 = content f1"
    "fold (\<lambda>k. read_one_step (u k)) ks (f1, data @ char_array 128 (u k), pos + 131) =
       (f2, (data @ char_array 128 (u k)) @ concat (map (\<lambda>k. char_array 128 (u k)) ks),
        pos + 131 + 131 * length ks)"
    by blast
  show ?case using f1 f2 by simp
qed

lemma read_one_step_fits:
  assumes "\<not> failbit strm" "content strm = b" "pos + 128 \<le> length b"
  shows "\<exists>strm'. \<not> failbit strm' \<and> content strm' = b \<and>
     read_one_step u (strm, data, pos) = (strm', data @ take 128 (drop pos b), pos + 131)"
  using assms by (simp add: read_one_step_def seekg_def istream_read_def good_def Let_def)

lemma read_one_step_short:
  assumes "\<not> failbit strm" "content strm = b" "\<not> pos + 128 \<le> length b"
  shows "\<exists>strm'. failbit strm' \<and> content strm' = b \<and>
     read_one_step u (strm, data, pos) =
       (strm', data @ drop pos b @ map u [length b - pos..<128], pos + 131)"
  using assms
  by (auto simp: read_one_step_def seekg_def istream_read_def good_def Let_def char_array_def
      drop_map)

lemma window_fits_mono: "window_fits b k \<Longrightarrow> j \<le> k \<Longrightarrow> window_fits b j"
  by (simp add: window_fits_def)

lemma fold_good:
  assumes "content strm = b" "\<not> failbit strm" "pos = 0x4C + 131 * i"
    and "i = 0 \<or> window_fits b (i - 1)"
  shows "\<exists>strm'. content strm' = b \<and>
     fold (\<lambda>k. read_one_step (u k)) [i..<j] (strm, data, pos) =
       (strm', data @ concat (map (\<lambda>k. extracted_block (u k) b k) [i..<j]),
        pos + 131 * (j - i))"
  using assms
proof (induction "j - i" arbitrary: i strm data pos)
  case 0
  then show ?case by simp
next
  case (Suc m)
  then have ij: "i < j" by simp
  then have upt: "[i..<j] = i # [Suc i..<j]" by (rule upt_conv_Cons)
  show ?case
  proof (cases "window_fits b i")
    case True
    then have fit: "pos + 128 \<le> length b" using Suc.prems by (simp add: window_fits_def)
    from read_one_step_fits [OF Suc.prems(2) Suc.prems(1) fit, of "u i" data]
    obtain f1 where f1: "\<not> failbit f1" "content f1 = b"
      "read_one_step (u i) (strm, data, pos) = (f1, data @ take 128 (drop pos b), pos + 131)"
      by blast
    have "\<exists>strm'. content strm' = b \<and>
       fold (\<lambda>k. read_one_step (u k)) [Suc i..<j] (f1, data @ take 128 (drop pos b), pos + 131) =
       (strm', (data @ take 128 (drop pos b)) @
           concat (map (\<lambda>k. extracted_block (u k) b k) [Suc i..<j]),
        pos + 131 + 131 * (j - Suc i))"
    proof (rule Suc.hyps(1))
      show "m = j - Suc i" using Suc.hyps(2) by simp
      show "content f1 = b" by (rule f1(2))
      show "\<not> failbit f1" by (rule f1(1))
      show "pos + 131 = 0x4C + 131 * Suc i" using Suc.prems by simp
      show "Suc i = 0 \<or> window_fits b (Suc i - 1)" using True by simp
    qed
    then obtain f2 where f2: "content f2 = b"
      "fold (\<lambda>k. read_one_step (u k)) [Suc i..<j] (f1, data @ take 128 (drop pos b), pos + 131) =
       (f2, (data @ take 128 (drop pos b)) @
           concat (map (\<lambda>k. extracted_block (u k) b k) [Suc i..<j]),
        pos + 131 + 131 * (j - Suc i))"
      by blast
    have blk: "extracted_block (u i) b i = take 128 (drop pos b)"
      using True Suc.prems by (simp add: extracted_block_def)
    have "pos + 131 + 131 * (j - Suc i) = pos + 131 * (j - i)" using ij by simp
    then show ?thesis using f1 f2 blk upt by simp
  next
    case False
    then have short: "\<not> pos + 128 \<le> length b" using Suc.prems by (simp add: window_fits_def)
    from read_one_step_short [OF Suc.prems(2) Suc.prems(1) short, of "u i" data]
    obtain f1 where f1: "failbit f1" "content f1 = b"
      "read_one_step (u i) (strm, data, pos) =
         (f1, data @ drop pos b @ map (u i) [length b - pos..<128], pos + 131)"
      by blast
    from fold_failed [OF f1(1), of u "[Suc i..<j]"
        "data @ drop pos b @ map (u i) [length b - pos..<128]" "pos + 131"]
    obtain f2 where f2: "content f2 = content f1"
      "fold (\<lambda>k. read_one_step (u k)) [Suc i..<j]
          (f1, data @ drop pos b @ map (u i) [length b - pos..<128], pos + 131) =
       (f2, (data @ drop pos b @ map (u i) [length b - pos..<128]) @
              concat (map (\<lambda>k. char_array 128 (u k)) [Suc i..<j]),
        pos + 131 + 131 * length [Suc i..<j])"
      by blast
    have blk: "extracted_block (u i) b i = drop pos b @ map (u i) [length b - pos..<128]"
      using False Suc.prems by (auto simp: extracted_block_def)
    have rest: "map (\<lambda>k. extracted_block (u k) b k) [Suc i..<j] =
        map (\<lambda>k. char_array 128 (u k)) [Suc i..<j]"
    proof (rule map_cong [OF refl])
      fix k assume "k \<in> set [Suc i..<j]"
      then have k: "i < k" by simp
      have "\<not> window_fits b k" using False window_fits_mono [of b k i] k by auto
      moreover have "\<not> window_fits b (k - 1)"
      proof
        assume "window_fits b (k - 1)"
        moreover have "i \<le> k - 1" using k by simp
        ultimately have "window_fits b i" by (rule window_fits_mono)
        with False show False by simp
      qed
      ultimately show "extracted_block (u k) b k = char_array 128 (u k)"
        using k by (simp add: extracted_block_def)
    qed
    have rest': "concat (map (\<lambda>k. extracted_block (u k) b k) [Suc i..<j]) =
        concat (map (\<lambda>k. char_array 128 (u k)) [Suc i..<j])"
      by (rule arg_cong [OF rest])
    have "pos + 131 + 131 * length [Suc i..<j] = pos + 131 * (j - i)" using ij by simp
    then show ?thesis using f1 f2 blk rest' upt by simp
  qed
qed

lemma read_files_blocks:
  assumes "\<not> failbit file1" "\<not> failbit file2"
  shows "\<exists>f1 f2. read_files u1 u2 file1 file2 data1 data2 =
     (f1, f2,
      data1 @ concat (map (\<lambda>k. extracted_block (u1 k) (content file1) k) [0..<48]),
      data2 @ concat (map (\<lambda>k. extracted_block (u2 k) (content file2) k) [0..<48]))"
proof -
  let ?st = "\<lparr>rf_file1 = file1, rf_file2 = file2, rf_data1 = data1, rf_data2 = data2,
              rf_pos1 = 0x4C, rf_pos2 = 0x4C\<rparr>"
  have "rf_data1 (read_loop u1 u2 0 ?st) =
      data1 @ concat (map (\<lambda>k. extracted_block (u1 k) (content file1) k) [0..<48])"
    using read_loop_view1 [of u1 u2 0 ?st]
      fold_good [of file1 "content file1" "0x4C" 0 u1 48 data1] assms by auto
  moreover have "rf_data2 (read_loop u1 u2 0 ?st) =
      data2 @ concat (map (\<lambda>k. extracted_block (u2 k) (content file2) k) [0..<48])"
    using read_loop_view2 [of u1 u2 0 ?st]
      fold_good [of file2 "content file2" "0x4C" 0 u2 48 data2] assms by auto
  ultimately show ?thesis by (simp add: read_files_def Let_def)
qed

lemma length_extracted_block [simp]: "length (extracted_block u b k) = 128"
  by (auto simp: extracted_block_def window_fits_def)

lemma length_concat_blocks:
  "(\<And>k. length (f k) = m) \<Longrightarrow> length (concat (map f [0..<n])) = m * n"
  by (induction n) simp_all

lemma take_drop_concat_blocks:
  assumes "\<And>k. length (f k) = m" and "k < n"
  shows "take m (drop (m * k) (concat (map f [0..<n]))) = f k"
  using assms(2)
proof (induction n)
  case 0
  then show ?case by simp
next
  case (Suc n)
  have len: "length (concat (map f [0..<n])) = m * n"
    using assms(1) by (rule length_concat_blocks)
  show ?case
  proof (cases "k < n")
    case True
    then have "m * Suc k \<le> m * n"
      by (intro mult_le_mono2) simp
    then have "m * k + m \<le> m * n" by simp
    then show ?thesis using Suc.IH [OF True] len by simp
  next
    case False
    with Suc.prems have "k = n" by simp
    then show ?thesis using len assms(1) by simp
  qed
qed

lemma nth_concat_blocks:
  assumes "\<And>k. length (f k) = m" and "k < n" and "j < m"
  shows "concat (map f [0..<n]) ! (m * k + j) = f k ! j"
proof -
  have "m * Suc k \<le> m * n"
    using assms(2) by (intro mult_le_mono2) simp
  then have "m * k + m \<le> m * n" by simp
  then have "m * k + j < length (concat (map f [0..<n]))"
    using assms length_concat_blocks [of f m n] by simp
  then have "concat (map f [0..<n]) ! (m * k + j) =
      take m (drop (m * k) (concat (map f [0..<n]))) ! j"
    using assms(3) by simp
  then show ?thesis using take_drop_concat_blocks [OF assms(1,2)] by simp
qed

lemma all_windows_fit: "6361 \<le> length b \<Longrightarrow> k < 48 \<Longrightarrow> window_fits b k"
  by (simp add: window_fits_def)

lemma blocks_are_windows:
  assumes "6361 \<le> length b"
  shows "concat (map (\<lambda>k. extracted_block (u k) b k) [0..<48]) = spec_windows b"
proof -
  have "map (\<lambda>k. extracted_block (u k) b k) [0..<48] =
      map (\<lambda>k. take 128 (drop (0x4C + 131 * k) b)) [0..<48]"
    by (rule map_cong [OF refl]) (simp add: extracted_block_def all_windows_fit [OF assms])
  then show ?thesis unfolding spec_windows_def by (rule arg_cong)
qed

lemma spec_windows_via_blocks:
  assumes "6361 \<le> length b"
  shows "spec_windows b = concat (map (\<lambda>k. extracted_block (zero_init k) b k) [0..<48])"
  using blocks_are_windows [OF assms, of zero_init] by simp

lemma length_spec_windows: "6361 \<le> length b \<Longrightarrow> length (spec_windows b) = 6144"
  using length_concat_blocks [of "\<lambda>k. extracted_block (zero_init k) b k" 128 48]
  by (simp add: spec_windows_via_blocks)

lemma spec_windows_nth:
  assumes "6361 \<le> length b" "k < 48" "j < 128"
  shows "spec_windows b ! (128 * k + j) = b ! (0x4C + 131 * k + j)"
proof -
  have "spec_windows b ! (128 * k + j) = extracted_block (zero_init k) b k ! j"
    using nth_concat_blocks [of "\<lambda>k. extracted_block (zero_init k) b k" 128 k 48 j] assms
    by (simp add: spec_windows_via_blocks)
  also have "\<dots> = take 128 (drop (0x4C + 131 * k) b) ! j"
    using all_windows_fit [OF assms(1,2)] by (simp add: extracted_block_def)
  also have "\<dots> = b ! (0x4C + 131 * k + j)"
    using assms by (simp add: window_fits_def)
  finally show ?thesis .
qed

lemma read_files_valid:
  assumes "6361 \<le> length (content file1)" "6361 \<le> length (content file2)"
    and "\<not> failbit file1" "\<not> failbit file2"
  shows "\<exists>f1 f2. read_files u1 u2 file1 file2 [] [] =
     (f1, f2, spec_windows (content file1), spec_windows (content file2))"
  using read_files_blocks [OF assms(3,4), of u1 u2 "[]" "[]"]
    blocks_are_windows [OF assms(1), of u1] blocks_are_windows [OF assms(2), of u2]
  by simp

subsection \<open>The 48 windows\<close>

text \<open>
  Claim C4. For two streams over buffers of 6363 bytes (not failed, as \<^verbatim>\<open>main\<close>
  leaves them after its checks), \<^verbatim>\<open>read_files\<close> fills each vector with exactly
  6144 bytes: the 128-byte windows at offsets 0x4C + 131 * k, k = 0..47, one after the
  other. Byte \<open>j\<close> of block \<open>k\<close> is the buffer's byte 0x4C + 131 * k + j, so the 3
  bytes after each window are in no block.
\<close>

theorem extractor_windows:
  assumes "length b1 = 6363" and "length b2 = 6363"
    and "content file1 = b1" and "content file2 = b2"
    and "\<not> failbit file1" and "\<not> failbit file2"
  shows "(\<exists>f1 f2. read_files u1 u2 file1 file2 [] [] = (f1, f2, spec_windows b1, spec_windows b2)) \<and>
     length (spec_windows b1) = 6144 \<and> length (spec_windows b2) = 6144 \<and>
     (\<forall>k<48. \<forall>j<128.
        spec_windows b1 ! (128 * k + j) = b1 ! (0x4C + 131 * k + j) \<and>
        spec_windows b2 ! (128 * k + j) = b2 ! (0x4C + 131 * k + j))"
proof -
  have l: "6361 \<le> length b1" "6361 \<le> length b2" using assms by simp_all
  have "\<exists>f1 f2. read_files u1 u2 file1 file2 [] [] = (f1, f2, spec_windows b1, spec_windows b2)"
    using read_files_valid [of file1 file2 u1 u2] assms l by simp
  moreover have "length (spec_windows b1) = 6144" "length (spec_windows b2) = 6144"
    using l by (simp_all add: length_spec_windows)
  moreover have "spec_windows b1 ! (128 * k + j) = b1 ! (0x4C + 131 * k + j)"
      "spec_windows b2 ! (128 * k + j) = b2 ! (0x4C + 131 * k + j)"
    if "k < 48" "j < 128" for k j
    using that l by (simp_all add: spec_windows_nth)
  ultimately show ?thesis by blast
qed

theorem extractor_windows_witness:
  "length (replicate 6363 (0x55 :: byte)) = 6363 \<and>
   content (ifstream_open (Some (replicate 6363 0x55))) = replicate 6363 0x55 \<and>
   \<not> failbit (ifstream_open (Some (replicate 6363 0x55))) \<and>
   (\<exists>f1 f2. read_files zero_init zero_init
       (ifstream_open (Some (replicate 6363 0x55))) (ifstream_open (Some (replicate 6363 0x55)))
       [] [] =
     (f1, f2, spec_windows (replicate 6363 0x55), spec_windows (replicate 6363 0x55))) \<and>
   length (spec_windows (replicate 6363 0x55)) = 6144"
proof -
  have h1: "length (replicate 6363 (0x55 :: byte)) = 6363" by simp
  have h2: "content (ifstream_open (Some (replicate 6363 0x55))) = replicate 6363 0x55"
    by (simp add: ifstream_open_def)
  have h3: "\<not> failbit (ifstream_open (Some (replicate 6363 0x55)))"
    by (simp add: ifstream_open_def)
  show ?thesis
    using h1 h2 h3 extractor_windows [OF h1 h1 h2 h2 h3 h3, of zero_init zero_init]
    by blast
qed

lemma concat_map_replicate:
  "concat (map (\<lambda>k. replicate m x) ks) = replicate (length ks * m) x"
  by (induction ks) (simp_all add: replicate_add)

lemma zero_init_const: "zero_init k = (\<lambda>j. 0)"
  by (rule ext) (simp add: zero_init_def)

lemma map_zero_init: "map (zero_init k) [i..<j] = replicate (j - i) 0"
  by (simp only: zero_init_const map_replicate_const length_upt)

lemma char_array_zero_init: "char_array n (zero_init k) = replicate n 0"
  using map_zero_init [of k 0 n] by (simp add: char_array_def)

lemma extracted_block_short_file:
  "extracted_block (zero_init k) (replicate 100 0x55) k =
     (if k = 0 then replicate 24 0x55 @ replicate 104 0 else replicate 128 0)"
  by (simp add: extracted_block_def window_fits_def char_array_zero_init map_zero_init
      del: upt_rec_numeral)

lemma blocks_short_file:
  "concat (map (\<lambda>k. extracted_block (zero_init k) (replicate 100 0x55) k) [0..<48]) =
     replicate 24 0x55 @ replicate 6120 0"
proof -
  let ?F = "\<lambda>k. extracted_block (zero_init k) (replicate 100 0x55) k"
  have split: "[0..<48] = 0 # [Suc 0..<48]" by (simp add: upt_conv_Cons)
  have tail: "map ?F [Suc 0..<48] = map (\<lambda>k. replicate 128 0) [Suc 0..<48]"
    by (rule map_cong [OF refl]) (simp add: extracted_block_short_file)
  have "concat (map ?F [0..<48]) = ?F 0 @ concat (map ?F [Suc 0..<48])"
    by (simp only: split list.map concat.simps)
  also have "\<dots> = ?F 0 @ concat (map (\<lambda>k. replicate 128 0) [Suc 0..<48])"
    by (simp only: tail)
  also have "\<dots> = (replicate 24 0x55 @ replicate 104 0) @ replicate (47 * 128) 0"
    by (simp only: concat_map_replicate extracted_block_short_file length_upt) simp
  also have "\<dots> = replicate 24 0x55 @ replicate 6120 0"
    by (simp flip: replicate_add)
  finally show ?thesis .
qed

subsection \<open>A window past the end of the buffer\<close>

text \<open>
  Claim C6 as stated fails. On a buffer of 100 bytes the first window (offsets 76 to
  203) extends past the end; \<^verbatim>\<open>read_files\<close> reports nothing and returns 6144
  bytes for each file: the 24 bytes the buffer has from offset 76, then what the read
  buffers held.
\<close>

theorem truncated_read_not_reported:
  "\<not> window_fits (replicate 100 0x55) 0 \<and>
   snd (snd (read_files zero_init zero_init
      (ifstream_open (Some (replicate 100 0x55))) (ifstream_open (Some (replicate 100 0x55)))
      [] [])) =
     (replicate 24 0x55 @ replicate 6120 0, replicate 24 0x55 @ replicate 6120 0)"
proof -
  let ?f = "ifstream_open (Some (replicate 100 (0x55 :: byte)))"
  have nf: "\<not> failbit ?f" and c: "content ?f = replicate 100 0x55"
    by (simp_all add: ifstream_open_def)
  from read_files_blocks [OF nf nf, of zero_init zero_init "[]" "[]"]
  obtain f1 f2 where "read_files zero_init zero_init ?f ?f [] [] =
     (f1, f2,
      [] @ concat (map (\<lambda>k. extracted_block (zero_init k) (content ?f) k) [0..<48]),
      [] @ concat (map (\<lambda>k. extracted_block (zero_init k) (content ?f) k) [0..<48]))"
    by blast
  then have "snd (snd (read_files zero_init zero_init ?f ?f [] [])) =
     (replicate 24 0x55 @ replicate 6120 0, replicate 24 0x55 @ replicate 6120 0)"
    by (simp add: c blocks_short_file)
  moreover have "\<not> window_fits (replicate 100 (0x55 :: byte)) 0"
    by (simp add: window_fits_def)
  ultimately show ?thesis by simp
qed

text \<open>
  Claim C6, amended. For every buffer, \<^verbatim>\<open>read_files\<close> reports no error and takes
  no byte from outside the buffer. It always returns 48 blocks of 128 bytes. A window
  that lies within the buffer is copied as it is. The first window that would extend
  past the end gives the bytes the buffer still has from the window's start, followed
  by bytes of the uninitialised read buffer, and every later block is the read buffer
  alone (\<open>extracted_block\<close>). In a buffer of 6363 bytes all 48 windows fit.
\<close>

theorem extractor_never_fails:
  assumes "content file1 = b1" and "content file2 = b2"
    and "\<not> failbit file1" and "\<not> failbit file2"
  shows "\<exists>f1 f2 d1 d2. read_files u1 u2 file1 file2 [] [] = (f1, f2, d1, d2) \<and>
     length d1 = 6144 \<and> length d2 = 6144 \<and>
     (\<forall>k<48. take 128 (drop (128 * k) d1) = extracted_block (u1 k) b1 k \<and>
             take 128 (drop (128 * k) d2) = extracted_block (u2 k) b2 k \<and>
             (window_fits b1 k \<longrightarrow>
                take 128 (drop (128 * k) d1) = take 128 (drop (0x4C + 131 * k) b1)) \<and>
             (window_fits b2 k \<longrightarrow>
                take 128 (drop (128 * k) d2) = take 128 (drop (0x4C + 131 * k) b2))) \<and>
     (length b1 = 6363 \<longrightarrow> (\<forall>k<48. window_fits b1 k)) \<and>
     (length b2 = 6363 \<longrightarrow> (\<forall>k<48. window_fits b2 k))"
proof -
  let ?d1 = "concat (map (\<lambda>k. extracted_block (u1 k) b1 k) [0..<48])"
  let ?d2 = "concat (map (\<lambda>k. extracted_block (u2 k) b2 k) [0..<48])"
  obtain f1 f2 where r: "read_files u1 u2 file1 file2 [] [] = (f1, f2, ?d1, ?d2)"
    using read_files_blocks [OF assms(3,4), of u1 u2 "[]" "[]"] assms(1,2) by auto
  have l: "length ?d1 = 6144" "length ?d2 = 6144"
    using length_concat_blocks [of "\<lambda>k. extracted_block (u1 k) b1 k" 128 48]
      length_concat_blocks [of "\<lambda>k. extracted_block (u2 k) b2 k" 128 48] by simp_all
  have t: "take 128 (drop (128 * k) ?d1) = extracted_block (u1 k) b1 k"
      "take 128 (drop (128 * k) ?d2) = extracted_block (u2 k) b2 k" if "k < 48" for k
    using take_drop_concat_blocks [of "\<lambda>k. extracted_block (u1 k) b1 k" 128 k 48]
      take_drop_concat_blocks [of "\<lambda>k. extracted_block (u2 k) b2 k" 128 k 48] that
    by simp_all
  have w: "extracted_block u b k = take 128 (drop (0x4C + 131 * k) b)"
    if "window_fits b k" for u b k
    using that by (simp add: extracted_block_def)
  have a: "\<forall>k<48. window_fits b k" if "length b = 6363" for b
    using that by (simp add: window_fits_def)
  show ?thesis
    using r l t w a by (intro exI [of _ f1] exI [of _ f2] exI [of _ ?d1] exI [of _ ?d2]) auto
qed

theorem extractor_never_fails_witness:
  "content (ifstream_open (Some (replicate 100 0x55))) = replicate 100 0x55 \<and>
   \<not> failbit (ifstream_open (Some (replicate 100 0x55))) \<and>
   (\<exists>f1 f2 d1 d2. read_files zero_init zero_init
        (ifstream_open (Some (replicate 100 0x55))) (ifstream_open (Some (replicate 100 0x55)))
        [] [] = (f1, f2, d1, d2) \<and>
      length d1 = 6144 \<and> length d2 = 6144 \<and>
      take 128 (drop (128 * 0) d1) = replicate 24 0x55 @ replicate 104 0 \<and>
      take 128 (drop (128 * 1) d1) = replicate 128 0)"
proof -
  let ?b = "replicate 100 (0x55 :: byte)"
  let ?f = "ifstream_open (Some ?b)"
  have nf: "\<not> failbit ?f" and c: "content ?f = ?b"
    by (simp_all add: ifstream_open_def)
  from extractor_never_fails [OF c c nf nf, of zero_init zero_init]
  obtain f1 f2 d1 d2 where r: "read_files zero_init zero_init ?f ?f [] [] = (f1, f2, d1, d2)"
    "length d1 = 6144" "length d2 = 6144"
    "\<forall>k<48. take 128 (drop (128 * k) d1) = extracted_block (zero_init k) ?b k"
    by blast
  have "take 128 (drop (128 * 0) d1) = extracted_block (zero_init 0) ?b 0"
    "take 128 (drop (128 * 1) d1) = extracted_block (zero_init 1) ?b 1"
    using r(4) [rule_format, of 0] r(4) [rule_format, of 1] by simp_all
  then have "take 128 (drop (128 * 0) d1) = replicate 24 0x55 @ replicate 104 0"
    "take 128 (drop (128 * 1) d1) = replicate 128 0"
    by (simp_all add: extracted_block_short_file)
  with r nf c show ?thesis by blast
qed

section \<open>The run\<close>

text \<open>The stream operations of \<^verbatim>\<open>main\<close> on a file just opened.\<close>

lemma read_header_full:
  assumes "7 \<le> length b" and "length hdr = 7"
  shows "istream_read 7 hdr (ifstream_open (Some b)) =
     (take 7 b, \<lparr>content = b, gpos = 7, eofbit = False, failbit = False\<rparr>)"
  using assms by (simp add: istream_read_def ifstream_open_def good_def)

lemma read_header_short:
  assumes "length b < 7"
  shows "istream_read 7 hdr (ifstream_open (Some b)) =
     (b @ drop (length b) hdr,
      \<lparr>content = b, gpos = length b, eofbit = True, failbit = True\<rparr>)"
  using assms by (simp add: istream_read_def ifstream_open_def good_def)

lemma file_length_good:
  "tellg (seekg_end \<lparr>content = b, gpos = p, eofbit = False, failbit = False\<rparr>) =
     (int (length b), \<lparr>content = b, gpos = length b, eofbit = False, failbit = False\<rparr>)"
  by (simp add: tellg_def seekg_end_def good_def)

lemma file_length_failed:
  "fst (tellg (seekg_end \<lparr>content = b, gpos = p, eofbit = e, failbit = True\<rparr>)) = - 1"
  by (simp add: tellg_def seekg_end_def good_def)

lemma rewind_good:
  "seekg 0 \<lparr>content = b, gpos = p, eofbit = False, failbit = False\<rparr> =
     \<lparr>content = b, gpos = 0, eofbit = False, failbit = False\<rparr>"
  by (simp add: seekg_def)

lemma length_signatures [simp]: "length signature_A = 7" "length signature_B = 7"
  by (simp_all add: signature_A_def signature_B_def)

text \<open>
  \<^verbatim>\<open>header\<close> still holds the signature of bank A when the second file is read. A
  second file of fewer than 7 bytes leaves the last byte 0x00, so the comparison with
  the signature of bank B fails.
\<close>

lemma stale_header_not_B:
  assumes "length b < 7"
  shows "b @ drop (length b) signature_A \<noteq> signature_B"
proof
  assume eq: "b @ drop (length b) signature_A = signature_B"
  have "drop (length b) signature_A \<noteq> []" using assms by simp
  then have "last (b @ drop (length b) signature_A) = last signature_A"
    using assms by (simp add: last_drop)
  with eq show False by (simp add: signature_A_def signature_B_def)
qed

lemma main_bad_signature_A:
  assumes "argc w = 4" "bankfile1 w = Some b1" "7 \<le> length b1" "take 7 b1 \<noteq> signature_A"
  shows "main w = Some \<lparr>status = EXIT_FAILURE, disk = patfile w,
           log = [Banner, InvalidSignature BankA]\<rparr>"
  using assms
  by (simp add: main_def check_file_exists_def read_header_full)

lemma main_bad_length_A:
  assumes "argc w = 4" "bankfile1 w = Some b1" "take 7 b1 = signature_A" "length b1 \<noteq> 6363"
  shows "main w = Some \<lparr>status = EXIT_FAILURE, disk = patfile w,
           log = [Banner, InvalidLength BankA (int (length b1))]\<rparr>"
proof -
  have "length (take 7 b1) = 7" using assms(3) by simp
  then have "7 \<le> length b1" by simp
  then show ?thesis
    using assms
    by (simp add: main_def check_file_exists_def read_header_full file_length_good)
qed

lemma main_bad_signature_B:
  assumes "argc w = 4" "bankfile1 w = Some b1" "take 7 b1 = signature_A" "length b1 = 6363"
    and "bankfile2 w = Some b2" "take 7 b2 \<noteq> signature_B"
  shows "main w = Some \<lparr>status = EXIT_FAILURE, disk = patfile w,
           log = [Banner, InvalidSignature BankB]\<rparr>"
proof (cases "7 \<le> length b2")
  case True
  then show ?thesis
    using assms
    by (simp add: main_def check_file_exists_def read_header_full file_length_good rewind_good)
next
  case False
  then have "length b2 < 7" by simp
  then show ?thesis
    using assms stale_header_not_B [of b2]
    by (simp add: main_def check_file_exists_def read_header_full read_header_short
        file_length_good rewind_good)
qed

lemma main_bad_length_B:
  assumes "argc w = 4" "bankfile1 w = Some b1" "take 7 b1 = signature_A" "length b1 = 6363"
    and "bankfile2 w = Some b2" "take 7 b2 = signature_B" "length b2 \<noteq> 6363"
  shows "main w = Some \<lparr>status = EXIT_FAILURE, disk = patfile w,
           log = [Banner, InvalidLength BankB (int (length b2))]\<rparr>"
proof -
  have "length (take 7 b2) = 7" using assms(6) by simp
  then have "7 \<le> length b2" by simp
  then show ?thesis
    using assms
    by (simp add: main_def check_file_exists_def read_header_full file_length_good rewind_good)
qed

text \<open>With both files valid, \<^verbatim>\<open>main\<close> reaches the overwrite prompt and the conversion.\<close>

lemma main_valid:
  assumes "argc w = 4" "bankfile1 w = Some b1" "take 7 b1 = signature_A" "length b1 = 6363"
    and "bankfile2 w = Some b2" "take 7 b2 = signature_B" "length b2 = 6363"
  shows "main w =
     (case check_output_file (patfile w) (answer w) of
        (msgs, None) \<Rightarrow> Some \<lparr>status = EXIT_FAILURE, disk = patfile w, log = Banner # msgs\<rparr>
      | (msgs, Some output_file) \<Rightarrow>
          main_tail (Banner # msgs) (spec_windows b1) (spec_windows b2))"
proof -
  let ?f1 = "\<lparr>content = b1, gpos = 0, eofbit = False, failbit = False\<rparr>"
  let ?f2 = "\<lparr>content = b2, gpos = 0, eofbit = False, failbit = False\<rparr>"
  obtain g1 g2 where rf: "read_files (buffer1_init w) (buffer2_init w) ?f1 ?f2 [] [] =
      (g1, g2, spec_windows b1, spec_windows b2)"
    using read_files_valid [of ?f1 ?f2 "buffer1_init w" "buffer2_init w"] assms by auto
  show ?thesis
    using assms rf
    by (simp add: main_def check_file_exists_def read_header_full file_length_good rewind_good
        split: prod.splits option.splits)
qed

text \<open>
  In every other case \<^verbatim>\<open>main\<close> stops before \<^verbatim>\<open>check_output_file\<close> with status 1,
  and the output file is as it was.
\<close>

lemma main_early_exit_log:
  assumes "\<not> (argc w = 4 \<and> (\<exists>b1 b2. bankfile1 w = Some b1 \<and> bankfile2 w = Some b2 \<and>
              take 7 b1 = signature_A \<and> length b1 = 6363 \<and>
              take 7 b2 = signature_B \<and> length b2 = 6363))"
  shows "\<exists>r. main w = Some r \<and> status r = 1 \<and> disk r = patfile w \<and>
           (\<forall>a b. LengthMismatch a b \<notin> set (log r))"
proof (cases "argc w = 4")
  case False
  then show ?thesis by (simp add: main_def)
next
  case argc: True
  show ?thesis
  proof (cases "bankfile1 w")
    case None
    then show ?thesis using argc by (simp add: main_def check_file_exists_def EXIT_FAILURE_def)
  next
    case f1: (Some b1)
    show ?thesis
    proof (cases "7 \<le> length b1")
      case short: False
      then have "length b1 < 7" by simp
      then show ?thesis
        using argc f1
        by (simp add: main_def check_file_exists_def read_header_short file_length_failed
            seekg_end_def tellg_def good_def EXIT_FAILURE_def Let_def split: prod.splits)
    next
      case long1: True
      show ?thesis
      proof (cases "take 7 b1 = signature_A \<and> length b1 = 6363")
        case False
        then consider "take 7 b1 \<noteq> signature_A" | "take 7 b1 = signature_A" "length b1 \<noteq> 6363"
          by blast
        then show ?thesis
        proof cases
          case 1
          then show ?thesis
            using main_bad_signature_A [OF argc f1 long1] by (simp add: EXIT_FAILURE_def)
        next
          case 2
          then show ?thesis
            using main_bad_length_A [OF argc f1] by (simp add: EXIT_FAILURE_def)
        qed
      next
        case ok1: True
        show ?thesis
        proof (cases "bankfile2 w")
          case None
          then show ?thesis
            using argc f1 ok1 long1
            by (simp add: main_def check_file_exists_def read_header_full file_length_good
                rewind_good EXIT_FAILURE_def)
        next
          case f2: (Some b2)
          with assms argc f1 ok1
          consider "take 7 b2 \<noteq> signature_B" | "take 7 b2 = signature_B" "length b2 \<noteq> 6363"
            by blast
          then show ?thesis
          proof cases
            case 1
            then show ?thesis
              using main_bad_signature_B [OF argc f1 _ _ f2] ok1 by (simp add: EXIT_FAILURE_def)
          next
            case 2
            then show ?thesis
              using main_bad_length_B [OF argc f1 _ _ f2] ok1 by (simp add: EXIT_FAILURE_def)
          qed
        qed
      qed
    qed
  qed
qed

lemma main_early_exit:
  assumes "\<not> (argc w = 4 \<and> (\<exists>b1 b2. bankfile1 w = Some b1 \<and> bankfile2 w = Some b2 \<and>
              take 7 b1 = signature_A \<and> length b1 = 6363 \<and>
              take 7 b2 = signature_B \<and> length b2 = 6363))"
  shows "\<exists>r. main w = Some r \<and> status r = 1 \<and> disk r = patfile w"
  using main_early_exit_log [OF assms] by blast

lemma example_world_simps [simp]:
  "argc (example_world f1 f2 out ans) = 4"
  "bankfile1 (example_world f1 f2 out ans) = f1"
  "bankfile2 (example_world f1 f2 out ans) = f2"
  "patfile (example_world f1 f2 out ans) = out"
  "answer (example_world f1 f2 out ans) = ans"
  by (simp_all add: example_world_def)

lemma example_bank_simps [simp]:
  "length sig = 7 \<Longrightarrow> length (example_bank sig) = 6363"
  "length sig = 7 \<Longrightarrow> take 7 (example_bank sig) = sig"
  by (simp_all add: example_bank_def)

lemma write_to_file_layout:
  "write_to_file a b = [0x89, 0x00] @ a @ [0xAB, 0xCD] @ b"
  by (simp add: write_to_file_def ofstream_write_def)

subsection \<open>The layout of the patch file\<close>

text \<open>
  Claim C2. For two input files of 6363 bytes with the signatures of bank A and bank B
  (and no existing output file, or the answer Y or y to the prompt), the run ends with
  status 0 and an output file of exactly 6148 bytes: 0x89 0x00 at offsets 0 and 1, the
  3072 bytes of the transcoded bank A at offsets 2 to 0xC01, 0xAB 0xCD at offsets 0xC02
  and 0xC03, the 3072 bytes of the transcoded bank B from offset 0xC04. The two tags
  are the same for all inputs.
\<close>

theorem patch_file_layout:
  assumes "argc w = 4"
    and "bankfile1 w = Some b1" and "take 7 b1 = signature_A" and "length b1 = 6363"
    and "bankfile2 w = Some b2" and "take 7 b2 = signature_B" and "length b2 = 6363"
    and "patfile w = None \<or> answer w = ''Y'' \<or> answer w = ''y''"
  shows "\<exists>r out bankA bankB.
     main w = Some r \<and> status r = 0 \<and> disk r = Some out \<and>
     log r = Banner # (if patfile w = None then [] else [OverwritePrompt, Wiped]) @ [Success] \<and>
     snd (reorganize_data (spec_windows b1) (spec_windows b2)) = Some (bankA, bankB) \<and>
     bankA = spec_merge_pairs (spec_windows b1) \<and> bankB = spec_merge_pairs (spec_windows b2) \<and>
     length bankA = 3072 \<and> length bankB = 3072 \<and>
     out = write_to_file bankA bankB \<and>
     out = [0x89, 0x00] @ bankA @ [0xAB, 0xCD] @ bankB \<and>
     length out = 6148 \<and>
     take 2 out = [0x89, 0x00] \<and> take 3072 (drop 2 out) = bankA \<and>
     take 2 (drop 0xC02 out) = [0xAB, 0xCD] \<and> drop 0xC04 out = bankB"
proof -
  let ?d1 = "spec_windows b1" and ?d2 = "spec_windows b2"
  let ?A = "spec_merge_pairs ?d1" and ?B = "spec_merge_pairs ?d2"
  let ?out = "write_to_file ?A ?B"
  have l: "length ?d1 = 6144" "length ?d2 = 6144"
    using assms by (simp_all add: length_spec_windows)
  then have re: "reorganize_data ?d1 ?d2 = ([], Some (?A, ?B))"
    using reorganize_data_even [of ?d1 ?d2]
    by (simp add: prod_eq_iff) (simp add: reorganize_data_def)
  have lA: "length ?A = 3072" "length ?B = 3072"
    using l by (simp_all add: length_spec_merge_pairs)
  let ?msgs = "if patfile w = None then [] else [OverwritePrompt, Wiped]"
  have c: "check_output_file (patfile w) (answer w) =
      (?msgs, Some (if patfile w = None then None else Some []))"
    using assms(8) by (auto simp: check_output_file_def check_file_exists_def)
  have m: "main w = Some \<lparr>status = 0, disk = Some ?out, log = Banner # ?msgs @ [Success]\<rparr>"
    using main_valid [OF assms(1-7)] c re by (simp add: main_tail_def)
  have o: "?out = [0x89, 0x00] @ ?A @ [0xAB, 0xCD] @ ?B"
    by (rule write_to_file_layout)
  have "length ?out = 6148" "take 2 ?out = [0x89, 0x00]" "take 3072 (drop 2 ?out) = ?A"
    "take 2 (drop 0xC02 ?out) = [0xAB, 0xCD]" "drop 0xC04 ?out = ?B"
    using lA by (simp_all add: o)
  with m re lA o show ?thesis by simp
qed

theorem patch_file_layout_witness:
  "argc (example_world (Some (example_bank signature_A)) (Some (example_bank signature_B))
           (Some [0x00]) ''Y'') = 4 \<and>
   take 7 (example_bank signature_A) = signature_A \<and> length (example_bank signature_A) = 6363 \<and>
   take 7 (example_bank signature_B) = signature_B \<and> length (example_bank signature_B) = 6363 \<and>
   (\<exists>r out. main (example_world (Some (example_bank signature_A))
                    (Some (example_bank signature_B)) (Some [0x00]) ''Y'') = Some r \<and>
      status r = 0 \<and> disk r = Some out \<and> length out = 6148 \<and>
      take 2 out = [0x89, 0x00] \<and> take 2 (drop 0xC02 out) = [0xAB, 0xCD])"
proof -
  let ?w = "example_world (Some (example_bank signature_A)) (Some (example_bank signature_B))
              (Some [0x00]) ''Y''"
  have h: "argc ?w = 4" "bankfile1 ?w = Some (example_bank signature_A)"
    "take 7 (example_bank signature_A) = signature_A" "length (example_bank signature_A) = 6363"
    "bankfile2 ?w = Some (example_bank signature_B)"
    "take 7 (example_bank signature_B) = signature_B" "length (example_bank signature_B) = 6363"
    "patfile ?w = None \<or> answer ?w = ''Y'' \<or> answer ?w = ''y''"
    by simp_all
  from patch_file_layout [OF h] h show ?thesis by blast
qed

subsection \<open>The signature check\<close>

text \<open>
  Claim C7. An input file whose first 7 bytes are not the signature of its bank
  (F0 43 75 00 00 00 00 for bank A, F0 43 75 00 00 00 01 for bank B) fails its check
  with the signature message: the first file whenever it is checked, the second once
  the first has passed. Whatever else the run was given, it then ends with status 1
  before \<^verbatim>\<open>read_files\<close> and \<^verbatim>\<open>reorganize_data\<close>, and the output file is as it
  was: nothing is written.
\<close>

theorem invalid_signature_rejected:
  "(argc w = 4 \<and> bankfile1 w = Some b1 \<and> 7 \<le> length b1 \<and> take 7 b1 \<noteq> signature_A \<longrightarrow>
      main w = Some \<lparr>status = EXIT_FAILURE, disk = patfile w,
                     log = [Banner, InvalidSignature BankA]\<rparr>) \<and>
   (argc w = 4 \<and> bankfile1 w = Some b1 \<and> take 7 b1 = signature_A \<and> length b1 = 6363 \<and>
    bankfile2 w = Some b2 \<and> take 7 b2 \<noteq> signature_B \<longrightarrow>
      main w = Some \<lparr>status = EXIT_FAILURE, disk = patfile w,
                     log = [Banner, InvalidSignature BankB]\<rparr>) \<and>
   ((bankfile1 w = Some b1 \<and> take 7 b1 \<noteq> signature_A) \<or>
    (bankfile2 w = Some b2 \<and> take 7 b2 \<noteq> signature_B) \<longrightarrow>
      (\<exists>r. main w = Some r \<and> status r = 1 \<and> disk r = patfile w)) \<and>
   EXIT_FAILURE = 1"
proof -
  have "\<exists>r. main w = Some r \<and> status r = 1 \<and> disk r = patfile w"
    if "(bankfile1 w = Some b1 \<and> take 7 b1 \<noteq> signature_A) \<or>
        (bankfile2 w = Some b2 \<and> take 7 b2 \<noteq> signature_B)"
    using that by (intro main_early_exit) auto
  then show ?thesis
    using main_bad_signature_A [of w b1] main_bad_signature_B [of w b1 b2]
    by (simp add: EXIT_FAILURE_def)
qed

theorem invalid_signature_rejected_witness:
  "7 \<le> length (example_bank signature_B) \<and> take 7 (example_bank signature_B) \<noteq> signature_A \<and>
   main (example_world (Some (example_bank signature_B)) (Some (example_bank signature_B))
           (Some [0x00]) ''Y'') =
     Some \<lparr>status = 1, disk = Some [0x00], log = [Banner, InvalidSignature BankA]\<rparr> \<and>
   take 7 (example_bank signature_A) \<noteq> signature_B \<and>
   main (example_world (Some (example_bank signature_A)) (Some (example_bank signature_A))
           (Some [0x00]) ''Y'') =
     Some \<lparr>status = 1, disk = Some [0x00], log = [Banner, InvalidSignature BankB]\<rparr>"
proof -
  have ne: "signature_B \<noteq> signature_A" "signature_A \<noteq> signature_B"
    by (simp_all add: signature_A_def signature_B_def)
  let ?wA = "example_world (Some (example_bank signature_B)) (Some (example_bank signature_B))
           (Some [0x00]) ''Y''"
  let ?wB = "example_world (Some (example_bank signature_A)) (Some (example_bank signature_A))
           (Some [0x00]) ''Y''"
  have "main ?wA = Some \<lparr>status = EXIT_FAILURE, disk = patfile ?wA,
                     log = [Banner, InvalidSignature BankA]\<rparr>"
    using invalid_signature_rejected [of ?wA "example_bank signature_B"] ne by simp
  moreover have "main ?wB = Some \<lparr>status = EXIT_FAILURE, disk = patfile ?wB,
                     log = [Banner, InvalidSignature BankB]\<rparr>"
    using invalid_signature_rejected [of ?wB "example_bank signature_A" "example_bank signature_A"] ne
    by simp
  ultimately show ?thesis using ne by (simp add: EXIT_FAILURE_def)
qed

subsection \<open>The length check\<close>

text \<open>
  Claim C8 as stated fails. A first file of 6362 zero bytes has the wrong length, and
  the run reports the missing signature, not the length: the signature is checked
  first.
\<close>

theorem wrong_length_reported_as_signature:
  "length (replicate 6362 (0x00 :: byte)) \<noteq> 6363 \<and>
   main (example_world (Some (replicate 6362 0x00)) (Some (example_bank signature_B)) None []) =
     Some \<lparr>status = 1, disk = None, log = [Banner, InvalidSignature BankA]\<rparr>"
proof -
  have "take 7 (replicate 6362 (0x00 :: byte)) \<noteq> signature_A"
  proof
    assume "take 7 (replicate 6362 (0x00 :: byte)) = signature_A"
    then have "hd (take 7 (replicate 6362 (0x00 :: byte))) = hd signature_A" by simp
    then show False by (simp add: signature_A_def)
  qed
  then show ?thesis
    using main_bad_signature_A [of "example_world (Some (replicate 6362 0x00))
        (Some (example_bank signature_B)) None []" "replicate 6362 0x00"]
    by (simp add: EXIT_FAILURE_def)
qed

text \<open>
  Claim C8, amended. An input file whose first 7 bytes are the signature of its bank
  and whose length is not 6363 bytes (6362 or 6364, say) fails its check with the
  length message, which reports the file's actual length: the first file whenever it
  is checked, the second once the first has passed. For every input file whose length
  is not 6363, with or without the signature, the run ends with status 1 and the
  output file is as it was.
\<close>

theorem invalid_length_rejected:
  "(argc w = 4 \<and> bankfile1 w = Some b1 \<and> take 7 b1 = signature_A \<and> length b1 \<noteq> 6363 \<longrightarrow>
      main w = Some \<lparr>status = EXIT_FAILURE, disk = patfile w,
                     log = [Banner, InvalidLength BankA (int (length b1))]\<rparr>) \<and>
   (argc w = 4 \<and> bankfile1 w = Some b1 \<and> take 7 b1 = signature_A \<and> length b1 = 6363 \<and>
    bankfile2 w = Some b2 \<and> take 7 b2 = signature_B \<and> length b2 \<noteq> 6363 \<longrightarrow>
      main w = Some \<lparr>status = EXIT_FAILURE, disk = patfile w,
                     log = [Banner, InvalidLength BankB (int (length b2))]\<rparr>) \<and>
   ((bankfile1 w = Some b1 \<and> length b1 \<noteq> 6363) \<or>
    (bankfile2 w = Some b2 \<and> length b2 \<noteq> 6363) \<longrightarrow>
      (\<exists>r. main w = Some r \<and> status r = 1 \<and> disk r = patfile w)) \<and>
   EXIT_FAILURE = 1"
proof -
  have "\<exists>r. main w = Some r \<and> status r = 1 \<and> disk r = patfile w"
    if "(bankfile1 w = Some b1 \<and> length b1 \<noteq> 6363) \<or>
        (bankfile2 w = Some b2 \<and> length b2 \<noteq> 6363)"
    using that by (intro main_early_exit) auto
  then show ?thesis
    using main_bad_length_A [of w b1] main_bad_length_B [of w b1 b2]
    by (simp add: EXIT_FAILURE_def)
qed

theorem invalid_length_rejected_witness:
  "take 7 (signature_A @ replicate 6355 0x55) = signature_A \<and>
   length (signature_A @ replicate 6355 0x55) \<noteq> 6363 \<and>
   main (example_world (Some (signature_A @ replicate 6355 0x55)) (Some (example_bank signature_B))
           (Some [0x00]) ''Y'') =
     Some \<lparr>status = 1, disk = Some [0x00], log = [Banner, InvalidLength BankA 6362]\<rparr> \<and>
   take 7 (signature_B @ replicate 6357 0x55) = signature_B \<and>
   length (signature_B @ replicate 6357 0x55) \<noteq> 6363 \<and>
   main (example_world (Some (example_bank signature_A)) (Some (signature_B @ replicate 6357 0x55))
           (Some [0x00]) ''Y'') =
     Some \<lparr>status = 1, disk = Some [0x00], log = [Banner, InvalidLength BankB 6364]\<rparr>"
proof -
  let ?s = "signature_A @ replicate 6355 (0x55 :: byte)"
  let ?l = "signature_B @ replicate 6357 (0x55 :: byte)"
  let ?wA = "example_world (Some ?s) (Some (example_bank signature_B)) (Some [0x00]) ''Y''"
  let ?wB = "example_world (Some (example_bank signature_A)) (Some ?l) (Some [0x00]) ''Y''"
  have "main ?wA = Some \<lparr>status = EXIT_FAILURE, disk = patfile ?wA,
                     log = [Banner, InvalidLength BankA (int (length ?s))]\<rparr>"
    using invalid_length_rejected [of ?wA ?s] by simp
  moreover have "main ?wB = Some \<lparr>status = EXIT_FAILURE, disk = patfile ?wB,
                     log = [Banner, InvalidLength BankB (int (length ?l))]\<rparr>"
    using invalid_length_rejected [of ?wB "example_bank signature_A" ?l] by simp
  ultimately show ?thesis by (simp add: EXIT_FAILURE_def)
qed


subsection \<open>The size mismatch\<close>








end
